theory Spec2Isabelle
  imports Complex_Main
begin

section \<open>Python strings\<close>

text \<open>
  A Python \<open>str\<close> is a sequence of Unicode code points; it is modelled as a list of
  natural numbers.  \<open>ascii\<close> turns an ASCII literal into such a list, so that
  \<open>ascii ''80,0 ''\<close> is the text \<^verbatim>\<open>80,0 \<close> followed by a blank.  The Cyrillic letters
  of the source are written by their code points.
\<close>

type_synonym pystr = "nat list"

definition ascii :: "string \<Rightarrow> pystr" where
  "ascii s = map of_char s"

text \<open>
  \<open>str.replace(old, new)\<close>: the occurrences of \<open>old\<close> are found from left to right
  and do not overlap.  Every call in the source has a non-empty \<open>old\<close>; for an empty
  \<open>old\<close> Python puts \<open>new\<close> before every character and at the end.
\<close>

fun replace_nonempty :: "pystr \<Rightarrow> pystr \<Rightarrow> pystr \<Rightarrow> pystr" where
  "replace_nonempty old new [] = []"
| "replace_nonempty old new (c # cs) =
     (if old \<noteq> [] \<and> take (length old) (c # cs) = old
      then new @ replace_nonempty old new (drop (length old) (c # cs))
      else c # replace_nonempty old new cs)"

definition replace :: "pystr \<Rightarrow> pystr \<Rightarrow> pystr \<Rightarrow> pystr" where
  "replace old new s =
     (if old = [] then new @ concat (map (\<lambda>c. c # new) s)
      else replace_nonempty old new s)"

text \<open>
  \<open>str.strip()\<close> removes the leading and trailing characters for which
  \<open>str.isspace\<close> holds: the code points of bidirectional class WS, B or S.
\<close>

definition isspace :: "nat \<Rightarrow> bool" where
  "isspace c \<longleftrightarrow>
     (9 \<le> c \<and> c \<le> 13) \<or> (28 \<le> c \<and> c \<le> 32) \<or> c = 0x85 \<or> c = 0xA0 \<or> c = 0x1680 \<or>
     (0x2000 \<le> c \<and> c \<le> 0x200A) \<or> c = 0x2028 \<or> c = 0x2029 \<or> c = 0x202F \<or>
     c = 0x205F \<or> c = 0x3000"

definition strip :: "pystr \<Rightarrow> pystr" where
  "strip s = rev (dropWhile isspace (rev (dropWhile isspace s)))"

text \<open>\<open>str(i)\<close> of an integer: its decimal digits, with a minus sign when negative.\<close>

fun digits_of :: "nat \<Rightarrow> pystr" where
  "digits_of n = (if n < 10 then [48 + n] else digits_of (n div 10) @ [48 + n mod 10])"

declare digits_of.simps [simp del]

definition str_int :: "int \<Rightarrow> pystr" where
  "str_int i = (if i < 0 then 45 # digits_of (nat (- i)) else digits_of (nat i))"

section \<open>Floating-point values and \<open>float(str)\<close>\<close>

text \<open>
  A Python \<open>float\<close> is a number of the 64-bit binary format: a finite number, an infinity
  or the not-a-number marker.  A finite value is given by the rational it stands for; the
  two zeros of the format are one value here: the comparison and the subtraction of the
  source give the same results for both, and the sign of a zero is not recorded.
\<close>

datatype pyfloat = Fin rat | PInf | NInf | NaN

text \<open>
  The rounding of the format: a rational becomes the nearest number \<open>m * 2 ^ e\<close> with a
  significand \<open>m\<close> of at most 53 bits and an exponent \<open>e\<close> of at least \<open>-1074\<close>, a tie
  going to the even significand, and a result of magnitude \<open>2 ^ 1024\<close> or more becomes an
  infinity.  \<open>floor_log2 a\<close> is the exponent \<open>k\<close> with \<open>2 ^ k \<le> a < 2 ^ (k + 1)\<close>, for
  \<open>a > 0\<close>.
\<close>

definition pow2 :: "int \<Rightarrow> rat" where
  "pow2 k = (if 0 \<le> k then 2 ^ nat k else 1 / 2 ^ nat (- k))"

fun bit_length :: "nat \<Rightarrow> nat" where
  "bit_length n = (if n = 0 then 0 else Suc (bit_length (n div 2)))"

declare bit_length.simps [simp del]

definition floor_log2 :: "rat \<Rightarrow> int" where
  "floor_log2 a =
     (if 1 \<le> a then int (bit_length (nat \<lfloor>a\<rfloor>)) - 1
      else - int (bit_length (nat (\<lceil>1 / a\<rceil> - 1))))"

definition round_half_even :: "rat \<Rightarrow> int" where
  "round_half_even x =
     (let f = \<lfloor>x\<rfloor>; r = x - of_int f
      in if r < 1 / 2 then f else if 1 / 2 < r then f + 1 else if even f then f else f + 1)"

definition round64 :: "rat \<Rightarrow> pyfloat" where
  "round64 q =
     (if q = 0 then Fin 0
      else
        (let a = \<bar>q\<bar>;
             e = max (floor_log2 a - 52) (- 1074);
             m = round_half_even (a / pow2 e);
             v = of_int m * pow2 e
         in if pow2 1024 \<le> v then (if q < 0 then NInf else PInf)
            else Fin (if q < 0 then - v else v)))"

text \<open>Comparison \<open>a > b\<close>: false whenever an operand is not a number.\<close>

fun gt :: "pyfloat \<Rightarrow> pyfloat \<Rightarrow> bool" where
  "gt NaN _ = False"
| "gt _ NaN = False"
| "gt NInf _ = False"
| "gt _ PInf = False"
| "gt PInf _ = True"
| "gt _ NInf = True"
| "gt (Fin a) (Fin b) = (b < a)"

text \<open>Subtraction \<open>a - b\<close>: the exact difference of two finite values, rounded.\<close>

fun sub :: "pyfloat \<Rightarrow> pyfloat \<Rightarrow> pyfloat" where
  "sub NaN _ = NaN"
| "sub _ NaN = NaN"
| "sub PInf PInf = NaN"
| "sub NInf NInf = NaN"
| "sub PInf _ = PInf"
| "sub NInf _ = NInf"
| "sub (Fin a) PInf = NInf"
| "sub (Fin a) NInf = PInf"
| "sub (Fin a) (Fin b) = round64 (a - b)"

text \<open>
  \<open>float(s)\<close> for a string \<open>s\<close>, following CPython: a code point from 127 on becomes a
  blank when it is white space and an invalid character otherwise; an underscore is
  accepted only between two digits; leading and trailing ASCII white space is skipped; what
  remains is a signed decimal numeral with an optional fraction and an optional exponent, or
  one of \<open>inf\<close>, \<open>infinity\<close>, \<open>nan\<close> in any letter case with an optional sign.  The value
  of a numeral is the exact decimal value, rounded once.  \<open>None\<close> stands for the
  \<open>ValueError\<close>.  CPython also accepts the decimal digits of other scripts; the model
  knows the ASCII digits only.
\<close>

definition is_digit :: "nat \<Rightarrow> bool" where
  "is_digit c \<longleftrightarrow> 48 \<le> c \<and> c \<le> 57"

definition to_ascii :: "pystr \<Rightarrow> pystr" where
  "to_ascii s = map (\<lambda>c. if c < 127 then c else if isspace c then 32 else 63) s"

fun drop_underscores :: "nat \<Rightarrow> pystr \<Rightarrow> pystr option" where
  "drop_underscores prev [] = (if prev = 95 then None else Some [])"
| "drop_underscores prev (c # cs) =
     (if c = 95 then (if is_digit prev then drop_underscores c cs else None)
      else if prev = 95 \<and> \<not> is_digit c then None
      else map_option ((#) c) (drop_underscores c cs))"

definition c_isspace :: "nat \<Rightarrow> bool" where
  "c_isspace c \<longleftrightarrow> (9 \<le> c \<and> c \<le> 13) \<or> c = 32"

definition c_strip :: "pystr \<Rightarrow> pystr" where
  "c_strip s = rev (dropWhile c_isspace (rev (dropWhile c_isspace s)))"

definition parse_sign :: "pystr \<Rightarrow> bool \<times> pystr" where
  "parse_sign s =
     (case s of
        [] \<Rightarrow> (False, [])
      | c # cs \<Rightarrow> if c = 45 then (True, cs) else if c = 43 then (False, cs) else (False, s))"

definition digits_val :: "pystr \<Rightarrow> nat" where
  "digits_val ds = foldl (\<lambda>a c. 10 * a + (c - 48)) 0 ds"

definition pow10 :: "int \<Rightarrow> rat" where
  "pow10 k = (if 0 \<le> k then 10 ^ nat k else 1 / 10 ^ nat (- k))"

definition parse_exponent :: "pystr \<Rightarrow> int option" where
  "parse_exponent s =
     (case s of
        [] \<Rightarrow> Some 0
      | c # cs \<Rightarrow>
          if c = 101 \<or> c = 69 then
            (let (neg, ds) = parse_sign cs
             in if ds \<noteq> [] \<and> list_all is_digit ds
                then Some (if neg then - int (digits_val ds) else int (digits_val ds))
                else None)
          else None)"

definition parse_decimal :: "pystr \<Rightarrow> pyfloat option" where
  "parse_decimal s =
     (let (neg, r) = parse_sign s;
          ip = takeWhile is_digit r;
          r1 = dropWhile is_digit r;
          has_point = (r1 \<noteq> [] \<and> hd r1 = 46);
          fp = (if has_point then takeWhile is_digit (tl r1) else []);
          r2 = (if has_point then dropWhile is_digit (tl r1) else r1)
      in if ip = [] \<and> fp = [] then None
         else (case parse_exponent r2 of
                 None \<Rightarrow> None
               | Some e \<Rightarrow>
                   Some (round64 ((if neg then - 1 else 1) * of_nat (digits_val (ip @ fp))
                                  * pow10 (e - int (length fp))))))"

definition lower :: "nat \<Rightarrow> nat" where
  "lower c = (if 65 \<le> c \<and> c \<le> 90 then c + 32 else c)"

definition parse_inf_or_nan :: "pystr \<Rightarrow> pyfloat option" where
  "parse_inf_or_nan s =
     (let (neg, r) = parse_sign s; l = map lower r
      in if l = ascii ''inf'' \<or> l = ascii ''infinity'' then Some (if neg then NInf else PInf)
         else if l = ascii ''nan'' then Some NaN
         else None)"

definition py_float :: "pystr \<Rightarrow> pyfloat option" where
  "py_float s =
     (case drop_underscores 0 (to_ascii s) of
        None \<Rightarrow> None
      | Some t \<Rightarrow>
          (let u = c_strip t
           in if u = [] then None
              else (case parse_decimal u of
                      Some x \<Rightarrow> Some x
                    | None \<Rightarrow> parse_inf_or_nan u)))"

section \<open>Cells and \<open>normalize_numeric\<close>\<close>

text \<open>
  The content of a cell as \<open>pandas.read_excel\<close> delivers it: an integer, a float or a
  text.  An empty cell is the float not-a-number, which is what \<open>pd.isna\<close> recognises.
\<close>

datatype cell = CInt int | CFloat pyfloat | CStr pystr

fun isna :: "cell \<Rightarrow> bool" where
  "isna (CFloat NaN) = True"
| "isna _ = False"

text \<open>
  \<open>str(x)\<close> of a cell.  The text of a finite float is CPython's shortest decimal rendering
  that reads back as the same float; it belongs to the interpreter and is the parameter
  \<open>repr\<close> of every function that may render a float.
\<close>

fun py_str :: "(rat \<Rightarrow> pystr) \<Rightarrow> cell \<Rightarrow> pystr" where
  "py_str repr (CStr s) = s"
| "py_str repr (CInt i) = str_int i"
| "py_str repr (CFloat (Fin q)) = repr q"
| "py_str repr (CFloat PInf) = ascii ''inf''"
| "py_str repr (CFloat NInf) = ascii ''-inf''"
| "py_str repr (CFloat NaN) = ascii ''nan''"

text \<open>
  The unit tokens of \<open>normalize_numeric\<close>, in the order of the source: Cyrillic
  \<open>M3\<close>, \<open>KG\<close>, \<open>T\<close>, \<open>sht\<close> (pieces), \<open>kg\<close>, \<open>t\<close>, \<open>m3\<close>.
\<close>

definition units :: "pystr list" where
  "units = [[0x41C, 0x33], [0x41A, 0x413], [0x422], [0x448, 0x442],
            [0x43A, 0x433], [0x442], [0x43C, 0x33]]"

text \<open>
  The cleaning of lines 8 to 11: commas become dots, then each unit is removed in turn and
  the text is stripped after each removal.
\<close>

definition clean :: "pystr \<Rightarrow> pystr" where
  "clean s = foldl (\<lambda>v unit. strip (replace unit [] v)) (replace (ascii '','') (ascii ''.'') s) units"

text \<open>
  \<open>normalize_numeric\<close>.  Lines 8 and 11 assign the cleaned text to the variable
  \<open>value\<close> itself, so the \<open>return value\<close> of line 15 returns the cleaned text.
\<close>

definition normalize_numeric :: "(rat \<Rightarrow> pystr) \<Rightarrow> cell \<Rightarrow> cell" where
  "normalize_numeric repr v =
     (if isna v then v
      else (case py_float (clean (py_str repr v)) of
              Some x \<Rightarrow> CFloat x
            | None \<Rightarrow> CStr (clean (py_str repr v))))"

text \<open>Line 37: \<open>str(x).replace('I', '1')\<close>.\<close>

definition fix_material_id :: "(rat \<Rightarrow> pystr) \<Rightarrow> cell \<Rightarrow> cell" where
  "fix_material_id repr x = CStr (replace (ascii ''I'') (ascii ''1'') (py_str repr x))"

section \<open>Data frames\<close>

text \<open>
  A \<open>DataFrame\<close>: the column labels in order, and the rows in order, each row holding one
  cell per column.  \<open>read_excel\<close> makes the labels distinct.
\<close>

record dataframe =
  columns :: "pystr list"
  rows :: "cell list list"

definition wf_dataframe :: "dataframe \<Rightarrow> bool" where
  "wf_dataframe df \<longleftrightarrow>
     distinct (columns df) \<and> list_all (\<lambda>r. length r = length (columns df)) (rows df)"

text \<open>\<open>df.empty\<close>: an axis of length 0.\<close>

definition df_empty :: "dataframe \<Rightarrow> bool" where
  "df_empty df \<longleftrightarrow> columns df = [] \<or> rows df = []"

fun index_of :: "pystr list \<Rightarrow> pystr \<Rightarrow> nat" where
  "index_of [] c = 0"
| "index_of (x # xs) c = (if x = c then 0 else Suc (index_of xs c))"

text \<open>The cell of row \<open>r\<close> in column \<open>col\<close>, for a label that the frame has.\<close>

definition cell_at :: "dataframe \<Rightarrow> pystr \<Rightarrow> cell list \<Rightarrow> cell" where
  "cell_at df col r = r ! index_of (columns df) col"

text \<open>\<open>df[col] = df[col].apply(f)\<close>, for a label that the frame has.\<close>

definition apply_column :: "dataframe \<Rightarrow> pystr \<Rightarrow> (cell \<Rightarrow> cell) \<Rightarrow> dataframe" where
  "apply_column df col f =
     df\<lparr>rows := map (\<lambda>r. r[index_of (columns df) col := f (cell_at df col r)]) (rows df)\<rparr>"

text \<open>
  \<open>df.loc[:, col] = values\<close> for a column of floats: a new label becomes the last column;
  a label that the frame has keeps its place, and its column takes the new values.  The
  second case is what pandas does when the column of the frame holds floats; for a column
  of integers or of texts the outcome depends on the version of pandas (the values are cast
  to the type of the column, or the assignment raises), and the statements on the cells
  written leave such frames out.
\<close>

definition set_column :: "dataframe \<Rightarrow> pystr \<Rightarrow> cell list \<Rightarrow> dataframe" where
  "set_column df col vs =
     (if col \<in> set (columns df)
      then df\<lparr>rows := map2 (\<lambda>r v. r[index_of (columns df) col := v]) (rows df) vs\<rparr>
      else df\<lparr>columns := columns df @ [col], rows := map2 (\<lambda>r v. r @ [v]) (rows df) vs\<rparr>)"

section \<open>The pipeline of \<open>process_xlsb_file\<close>\<close>

text \<open>The column labels of the source: material identifier, received in total, quantity
  requested, and discrepancy between request and receipt.\<close>

definition COL_ID :: pystr where
  "COL_ID = [0x49, 0x44, 0x20, 0x41C, 0x430, 0x442, 0x435, 0x440, 0x438, 0x430, 0x43B, 0x430]"

definition COL_RECEIVED :: pystr where
  "COL_RECEIVED = [0x41F, 0x43E, 0x441, 0x442, 0x443, 0x43F, 0x438, 0x43B, 0x43E, 0x20, 0x432,
                   0x441, 0x435, 0x433, 0x43E]"

definition COL_REQUESTED :: pystr where
  "COL_REQUESTED = [0x41A, 0x43E, 0x43B, 0x2D, 0x432, 0x43E, 0x20, 0x43F, 0x43E, 0x20, 0x437,
                    0x430, 0x44F, 0x432, 0x43A, 0x435]"

definition COL_DISCREPANCY :: pystr where
  "COL_DISCREPANCY = [0x420, 0x430, 0x441, 0x445, 0x43E, 0x436, 0x434, 0x435, 0x43D, 0x438,
                      0x435, 0x20, 0x437, 0x430, 0x44F, 0x432, 0x43A, 0x430, 0x2D, 0x43F, 0x440,
                      0x438, 0x445, 0x43E, 0x434]"

definition required_columns :: "pystr list" where
  "required_columns = [COL_ID, COL_RECEIVED, COL_REQUESTED]"

text \<open>
  The failures of the pipeline.  The source raises \<open>ValueError\<close> with three different
  messages, and the handler of line 64 wraps every exception into one \<open>Exception\<close> whose
  text starts with a fixed prefix.  \<open>ReadError\<close> carries the text of an exception that
  \<open>read_excel\<close> raised; \<open>EmptyInputError\<close> is line 24, \<open>MissingColumnsError\<close> line 32 and
  \<open>InvalidNumericDataError\<close> line 50.
\<close>

datatype pipeline_error =
    ReadError pystr
  | EmptyInputError
  | MissingColumnsError "pystr list"
  | InvalidNumericDataError

text \<open>\<open>', '.join(xs)\<close>.\<close>

fun join_comma :: "pystr list \<Rightarrow> pystr" where
  "join_comma [] = []"
| "join_comma [x] = x"
| "join_comma (x # y # ys) = x @ ascii '', '' @ join_comma (y # ys)"

text \<open>\<open>str(e)\<close> of the exception that leaves \<open>process_xlsb_file\<close>.\<close>

definition error_message :: "pipeline_error \<Rightarrow> pystr" where
  "error_message e =
     [0x41E, 0x448, 0x438, 0x431, 0x43A, 0x430, 0x20, 0x43E, 0x431, 0x440, 0x430, 0x431, 0x43E,
      0x442, 0x43A, 0x438, 0x20, 0x444, 0x430, 0x439, 0x43B, 0x430, 0x3A, 0x20] @
     (case e of
        ReadError m \<Rightarrow> m
      | EmptyInputError \<Rightarrow>
          [0x424, 0x430, 0x439, 0x43B, 0x20, 0x43F, 0x443, 0x441, 0x442, 0x43E, 0x439]
      | MissingColumnsError cols \<Rightarrow>
          [0x41E, 0x442, 0x441, 0x443, 0x442, 0x441, 0x442, 0x432, 0x443, 0x44E, 0x442, 0x20,
           0x43A, 0x43E, 0x43B, 0x43E, 0x43D, 0x43A, 0x438, 0x3A, 0x20] @ join_comma cols
      | InvalidNumericDataError \<Rightarrow>
          [0x412, 0x20, 0x447, 0x438, 0x441, 0x43B, 0x43E, 0x432, 0x44B, 0x445, 0x20, 0x43A,
           0x43E, 0x43B, 0x43E, 0x43D, 0x43A, 0x430, 0x445, 0x20, 0x435, 0x441, 0x442, 0x44C,
           0x20, 0x43D, 0x435, 0x43A, 0x43E, 0x440, 0x440, 0x435, 0x43A, 0x442, 0x43D, 0x44B,
           0x435, 0x20, 0x434, 0x430, 0x43D, 0x43D, 0x44B, 0x435])"

text \<open>
  \<open>pd.to_numeric(column, errors='coerce')\<close> on one cell: a float stays, a text is parsed,
  and what does not parse becomes not-a-number.  In the pipeline the cells of this step come
  from \<open>normalize_numeric\<close>: none is an integer, and a text is a cleaned text that \<open>float\<close>
  has refused.  The parser of pandas is modelled by that of \<open>float\<close>, although it accepts
  some texts that \<open>float\<close> refuses (a blank inside the exponent, for one): on a cell with
  such a text the model fails where the code goes on.  When every cell has become a float,
  as in every run that the model lets succeed, neither that parser nor the value given to
  an integer plays a part.
\<close>

fun to_numeric :: "cell \<Rightarrow> pyfloat" where
  "to_numeric (CInt i) = round64 (of_int i)"
| "to_numeric (CFloat x) = x"
| "to_numeric (CStr s) = (case py_float s of Some x \<Rightarrow> x | None \<Rightarrow> NaN)"

text \<open>Lines 36 to 46: the frame after the normalisation and the coercion to numbers.\<close>

definition normalized :: "(rat \<Rightarrow> pystr) \<Rightarrow> dataframe \<Rightarrow> dataframe" where
  "normalized repr df =
     (let df1 = apply_column df COL_ID (fix_material_id repr);
          df2 = apply_column df1 COL_RECEIVED (normalize_numeric repr);
          df3 = apply_column df2 COL_REQUESTED (normalize_numeric repr);
          df4 = apply_column df3 COL_RECEIVED (\<lambda>x. CFloat (to_numeric x));
          df5 = apply_column df4 COL_REQUESTED (\<lambda>x. CFloat (to_numeric x))
      in df5)"

text \<open>The value of a cell of a numeric column.\<close>

definition number :: "dataframe \<Rightarrow> pystr \<Rightarrow> cell list \<Rightarrow> pyfloat" where
  "number df col r = to_numeric (cell_at df col r)"

text \<open>Line 49: some cell of the two numeric columns is not a number.\<close>

definition has_nan :: "dataframe \<Rightarrow> bool" where
  "has_nan df \<longleftrightarrow>
     list_ex (\<lambda>r. isna (cell_at df COL_RECEIVED r) \<or> isna (cell_at df COL_REQUESTED r)) (rows df)"

text \<open>Line 53: the rows where the quantity requested exceeds the quantity received.\<close>

definition filtered :: "dataframe \<Rightarrow> dataframe" where
  "filtered df =
     df\<lparr>rows := filter (\<lambda>r. gt (number df COL_REQUESTED r) (number df COL_RECEIVED r)) (rows df)\<rparr>"

text \<open>Lines 56 to 59: the discrepancy column.\<close>

definition discrepancy :: "dataframe \<Rightarrow> cell list \<Rightarrow> cell" where
  "discrepancy df r = CFloat (sub (number df COL_REQUESTED r) (number df COL_RECEIVED r))"

definition add_discrepancy :: "dataframe \<Rightarrow> dataframe" where
  "add_discrepancy df = set_column df COL_DISCREPANCY (map (discrepancy df) (rows df))"

text \<open>Lines 23 to 59: from the frame that was read to the frame that is written.\<close>

definition process_dataframe :: "(rat \<Rightarrow> pystr) \<Rightarrow> dataframe \<Rightarrow> pipeline_error + dataframe" where
  "process_dataframe repr df =
     (if df_empty df then Inl EmptyInputError
      else
        (let missing_columns = filter (\<lambda>col. col \<notin> set (columns df)) required_columns
         in if missing_columns \<noteq> [] then Inl (MissingColumnsError missing_columns)
            else
              (let df5 = normalized repr df
               in if has_nan df5 then Inl InvalidNumericDataError
                  else Inr (add_discrepancy (filtered df5)))))"

section \<open>Files\<close>

text \<open>
  A file is modelled by what \<open>read_excel\<close> makes of it: a workbook holding a frame, or
  content on which \<open>read_excel\<close> raises.  A failure records whether the exception is a
  \<open>ValueError\<close>, the one kind that \<open>upload_file\<close> handles, and the text of the exception.
  The file system maps a path to the file stored there.
\<close>

datatype read_failure = ValueError pystr | OtherException pystr

datatype xlsx_file = Workbook dataframe | Unreadable read_failure

type_synonym filesystem = "pystr \<rightharpoonup> xlsx_file"

definition read_excel :: "filesystem \<Rightarrow> pystr \<Rightarrow> read_failure + dataframe" where
  "read_excel fs path =
     (case fs path of
        None \<Rightarrow>
          Inl (OtherException (ascii ''[Errno 2] No such file or directory: '' @ [39] @ path @ [39]))
      | Some (Unreadable e) \<Rightarrow> Inl e
      | Some (Workbook df) \<Rightarrow> Inr df)"

fun failure_text :: "read_failure \<Rightarrow> pystr" where
  "failure_text (ValueError m) = m"
| "failure_text (OtherException m) = m"

text \<open>
  \<open>process_xlsb_file(input_path, output_path)\<close>: the result is the exception raised, or
  nothing; the file system is returned with the output written.  Writing is taken to
  succeed, and the file written is recorded by the frame that \<open>to_excel\<close> is given: how
  the writer encodes a cell (an infinite float as a text, a float without fraction as a
  whole number) is not part of the model, and no function of the source reads an output.
\<close>

definition process_xlsb_file ::
  "(rat \<Rightarrow> pystr) \<Rightarrow> pystr \<Rightarrow> pystr \<Rightarrow> filesystem \<Rightarrow> (pipeline_error + unit) \<times> filesystem" where
  "process_xlsb_file repr input_path output_path fs =
     (case read_excel fs input_path of
        Inl e \<Rightarrow> (Inl (ReadError (failure_text e)), fs)
      | Inr df \<Rightarrow>
          (case process_dataframe repr df of
             Inl e \<Rightarrow> (Inl e, fs)
           | Inr filtered_df \<Rightarrow> (Inr (), fs(output_path \<mapsto> Workbook filtered_df))))"

section \<open>The upload service of \<open>main.py\<close>\<close>

text \<open>
  An entry of the registry \<open>tasks\<close>, with the keys \<open>status\<close>, \<open>output_path\<close> and
  \<open>error\<close> of the source.  The status is one of the texts \<open>pending\<close>,
  \<open>success\<close> and \<open>failed\<close>; the key \<open>error\<close> is absent until a run fails.
\<close>

record task =
  t_status :: pystr
  t_output_path :: pystr
  t_error :: "pystr option"

text \<open>
  \<open>upload_file\<close> is a coroutine: at \<open>await file.read()\<close> (line 74) it may give way to
  other requests and to scheduled runs.  An \<open>upload\<close> holds the local variables of a
  request that waits there; a \<open>job\<close> holds the variables that the closure \<open>process_task\<close>
  captured when \<open>asyncio.create_task\<close> scheduled it.
\<close>

record upload =
  up_task_id :: pystr
  up_input_path :: pystr
  up_output_path :: pystr
  up_content :: xlsx_file

record job =
  job_task_id :: pystr
  job_input_path :: pystr
  job_output_path :: pystr

record server =
  tasks :: "pystr \<rightharpoonup> task"
  files :: filesystem
  reading :: "upload list"
  scheduled :: "job list"

text \<open>
  The answers of \<open>/upload\<close>: the task identifier, the two \<open>HTTPException\<close>s with status
  400 (lines 60 and 83), or an exception that nothing handles.
\<close>

datatype upload_response =
    Accepted pystr
  | WrongExtension
  | WrongFormat
  | Unhandled pystr

datatype status_response = TaskNotFound | TaskStatus pystr pystr "pystr option"

definition endswith :: "pystr \<Rightarrow> pystr \<Rightarrow> bool" where
  "endswith s suffix \<longleftrightarrow>
     length suffix \<le> length s \<and> drop (length s - length suffix) s = suffix"

definition TEMP_DIR :: pystr where
  "TEMP_DIR = ascii ''temp''"

definition path_join :: "pystr \<Rightarrow> pystr \<Rightarrow> pystr" where
  "path_join dir name = dir @ ascii ''/'' @ name"

text \<open>
  Lines 59 to 71 of \<open>upload_file\<close>, up to the \<open>await\<close>: the extension check, the paths and
  the registration with status \<open>pending\<close>.  The identifier that \<open>uuid.uuid4()\<close> draws is
  the argument \<open>task_id\<close>.
\<close>

definition upload_file_begin ::
  "pystr \<Rightarrow> xlsx_file \<Rightarrow> pystr \<Rightarrow> server \<Rightarrow> upload_response option \<times> server" where
  "upload_file_begin filename content task_id s =
     (if \<not> endswith filename (ascii ''.xlsx'') then (Some WrongExtension, s)
      else
        (let input_path = path_join TEMP_DIR (task_id @ ascii ''_input.xlsx'');
             output_path = path_join TEMP_DIR (task_id @ ascii ''_output.xlsx'')
         in (None,
             s\<lparr>tasks := (tasks s)(task_id \<mapsto>
                    \<lparr>t_status = ascii ''pending'', t_output_path = output_path, t_error = None\<rparr>),
               reading := reading s @
                    [\<lparr>up_task_id = task_id, up_input_path = input_path,
                      up_output_path = output_path, up_content = content\<rparr>]\<rparr>)))"

text \<open>
  Lines 75 to 101, after the \<open>await\<close>: the content is written, the format is checked by
  reading the file, and the run is scheduled.  Only a \<open>ValueError\<close> is handled.
\<close>

definition upload_file_resume :: "upload \<Rightarrow> server \<Rightarrow> upload_response \<times> server" where
  "upload_file_resume u s =
     (let written = (files s)(up_input_path u \<mapsto> up_content u)
      in case read_excel written (up_input_path u) of
           Inl (ValueError m) \<Rightarrow> (WrongFormat, s\<lparr>files := written(up_input_path u := None)\<rparr>)
         | Inl (OtherException m) \<Rightarrow> (Unhandled m, s\<lparr>files := written\<rparr>)
         | Inr df \<Rightarrow>
             (Accepted (up_task_id u),
              s\<lparr>files := written,
                scheduled := scheduled s @
                  [\<lparr>job_task_id = up_task_id u, job_input_path = up_input_path u,
                    job_output_path = up_output_path u\<rparr>]\<rparr>))"

text \<open>
  \<open>process_task\<close> (lines 87 to 97).  It has no \<open>await\<close> and runs in one piece.  An
  assignment to \<open>tasks[task_id][...]\<close> for an identifier that the registry lacks raises
  \<open>KeyError\<close> and changes nothing.
\<close>

definition process_task :: "(rat \<Rightarrow> pystr) \<Rightarrow> job \<Rightarrow> server \<Rightarrow> server" where
  "process_task repr j s =
     (let (result, written) =
            process_xlsb_file repr (job_input_path j) (job_output_path j) (files s);
          tasks' =
            (case tasks s (job_task_id j) of
               None \<Rightarrow> tasks s
             | Some t \<Rightarrow>
                 (tasks s)(job_task_id j \<mapsto>
                    (case result of
                       Inr _ \<Rightarrow> t\<lparr>t_status := ascii ''success''\<rparr>
                     | Inl e \<Rightarrow> t\<lparr>t_status := ascii ''failed'', t_error := Some (error_message e)\<rparr>)))
      in s\<lparr>tasks := tasks', files := written(job_input_path j := None)\<rparr>)"

text \<open>\<open>get_status\<close> (lines 105 to 114).\<close>

definition get_status :: "pystr \<Rightarrow> server \<Rightarrow> status_response" where
  "get_status task_id s =
     (case tasks s task_id of
        None \<Rightarrow> TaskNotFound
      | Some t \<Rightarrow> TaskStatus task_id (t_status t) (t_error t))"

text \<open>
  What the event loop can do next: take a new upload up to its \<open>await\<close>, continue a
  waiting upload, or run a scheduled job.  \<open>uuid.uuid4()\<close> is taken to draw an identifier
  that the registry does not hold.  \<open>get_status\<close> and \<open>get_result\<close> change nothing and are
  no steps.
\<close>

inductive step :: "(rat \<Rightarrow> pystr) \<Rightarrow> server \<Rightarrow> server \<Rightarrow> bool" for repr where
  accept: "task_id \<notin> dom (tasks s) \<Longrightarrow>
          step repr s (snd (upload_file_begin filename content task_id s))"
| resume: "reading s = before @ u # after \<Longrightarrow>
          step repr s (snd (upload_file_resume u (s\<lparr>reading := before @ after\<rparr>)))"
| run: "scheduled s = before @ j # after \<Longrightarrow>
          step repr s (process_task repr j (s\<lparr>scheduled := before @ after\<rparr>))"

text \<open>The service at start: an empty registry, no request and no job.\<close>

definition started :: "server \<Rightarrow> bool" where
  "started s \<longleftrightarrow> tasks s = Map.empty \<and> reading s = [] \<and> scheduled s = []"

section \<open>Vocabulary of the statements\<close>

text \<open>
  The quantity of a row of the input in a numeric column: its cell after
  \<open>normalize_numeric\<close> and the coercion.
\<close>

definition quantity :: "(rat \<Rightarrow> pystr) \<Rightarrow> dataframe \<Rightarrow> pystr \<Rightarrow> cell list \<Rightarrow> pyfloat" where
  "quantity repr df col r = to_numeric (normalize_numeric repr (cell_at df col r))"

text \<open>A row of the input with its three required cells normalised.\<close>

definition normalize_row :: "(rat \<Rightarrow> pystr) \<Rightarrow> dataframe \<Rightarrow> cell list \<Rightarrow> cell list" where
  "normalize_row repr df r =
     r[index_of (columns df) COL_ID := fix_material_id repr (cell_at df COL_ID r),
       index_of (columns df) COL_RECEIVED := CFloat (quantity repr df COL_RECEIVED r),
       index_of (columns df) COL_REQUESTED := CFloat (quantity repr df COL_REQUESTED r)]"

definition exceeds :: "(rat \<Rightarrow> pystr) \<Rightarrow> dataframe \<Rightarrow> cell list \<Rightarrow> bool" where
  "exceeds repr df r \<longleftrightarrow> gt (quantity repr df COL_REQUESTED r) (quantity repr df COL_RECEIVED r)"

definition shortfall :: "(rat \<Rightarrow> pystr) \<Rightarrow> dataframe \<Rightarrow> cell list \<Rightarrow> pyfloat" where
  "shortfall repr df r = sub (quantity repr df COL_REQUESTED r) (quantity repr df COL_RECEIVED r)"

text \<open>
  The row and the labels of the output: the discrepancy is a new last column, unless the
  input has a column of that label, which then takes the discrepancy in its place.
\<close>

definition output_row :: "(rat \<Rightarrow> pystr) \<Rightarrow> dataframe \<Rightarrow> cell list \<Rightarrow> cell list" where
  "output_row repr df r =
     (if COL_DISCREPANCY \<in> set (columns df)
      then (normalize_row repr df r)[index_of (columns df) COL_DISCREPANCY := CFloat (shortfall repr df r)]
      else normalize_row repr df r @ [CFloat (shortfall repr df r)])"

definition output_columns :: "dataframe \<Rightarrow> pystr list" where
  "output_columns df =
     (if COL_DISCREPANCY \<in> set (columns df) then columns df else columns df @ [COL_DISCREPANCY])"

text \<open>A column of floats: every cell of the column is a float, the empty cell included.\<close>

fun is_float :: "cell \<Rightarrow> bool" where
  "is_float (CFloat x) = True"
| "is_float _ = False"

definition float_column :: "dataframe \<Rightarrow> pystr \<Rightarrow> bool" where
  "float_column df col \<longleftrightarrow> list_all (\<lambda>r. is_float (cell_at df col r)) (rows df)"

text \<open>
  The reading of a list of names in a message: \<open>s.split(', ')\<close>, the pieces of a text
  between the occurrences of a comma followed by a blank.
\<close>

fun split_comma :: "pystr \<Rightarrow> pystr list" where
  "split_comma [] = [[]]"
| "split_comma [c] = [[c]]"
| "split_comma (c # d # cs) =
     (if c = 44 \<and> d = 32 then [] # split_comma cs
      else (case split_comma (d # cs) of
              [] \<Rightarrow> [[c]]
            | p # ps \<Rightarrow> (c # p) # ps))"

text \<open>
  The Cyrillic letters of the unit tokens, a text without any of them, and a text given in
  pieces of which the unit tokens are left out.
\<close>

definition unit_letters :: "nat set" where
  "unit_letters = {0x41C, 0x41A, 0x413, 0x422, 0x448, 0x442, 0x43A, 0x433, 0x43C}"

definition unit_free :: "pystr \<Rightarrow> bool" where
  "unit_free s \<longleftrightarrow> list_all (\<lambda>c. c \<notin> unit_letters) s"

definition without_units :: "pystr list \<Rightarrow> pystr" where
  "without_units ps = concat (filter (\<lambda>p. p \<notin> set units) ps)"

text \<open>
  A piece that the removals of the tokens \<open>ts\<close>, in this order, either take away whole or
  leave untouched: it is the token of the current removal, or it lacks the first letter of
  that token and is admissible for the removals that follow.
\<close>

fun admissible :: "pystr list \<Rightarrow> pystr \<Rightarrow> bool" where
  "admissible [] p = True"
| "admissible (t # ts) p = (p = t \<or> (hd t \<notin> set p \<and> admissible ts p))"

text \<open>
  Of the registry: a task is pending, the requests and jobs are consistent with the
  registry, and a task that nothing will touch again.
\<close>

definition is_pending :: "server \<Rightarrow> pystr \<Rightarrow> bool" where
  "is_pending s tid \<longleftrightarrow>
     (case tasks s tid of None \<Rightarrow> False | Some t \<Rightarrow> t_status t = ascii ''pending'' \<and> t_error t = None)"

definition consistent :: "server \<Rightarrow> bool" where
  "consistent s \<longleftrightarrow>
     distinct (map up_task_id (reading s)) \<and>
     (\<forall>u\<in>set (reading s). is_pending s (up_task_id u)) \<and>
     (\<forall>j\<in>set (scheduled s). job_task_id j \<in> dom (tasks s) \<and>
        job_task_id j \<notin> up_task_id ` set (reading s))"

definition stuck :: "server \<Rightarrow> pystr \<Rightarrow> bool" where
  "stuck s tid \<longleftrightarrow>
     is_pending s tid \<and> tid \<notin> up_task_id ` set (reading s) \<and>
     tid \<notin> job_task_id ` set (scheduled s)"

section \<open>Example reports\<close>

text \<open>
  The report of the tests: the quantities requested are 358, 80 and 934 with Cyrillic unit
  suffixes, the quantities received 506, 369 and 723.
\<close>

definition example_report :: dataframe where
  "example_report =
     \<lparr>columns = [COL_RECEIVED, COL_ID, COL_REQUESTED],
      rows = [[CInt 506, CStr (ascii ''I46872''), CStr (ascii ''358 '' @ [0x41C, 0x33])],
              [CInt 369, CStr (ascii ''694304''), CStr (ascii ''80 '' @ [0x41C, 0x33])],
              [CInt 723, CStr (ascii ''727698''), CStr (ascii ''934 '' @ [0x41A, 0x413])]]\<rparr>"

text \<open>A report whose second row has a quantity received that is no number.\<close>

definition invalid_report :: dataframe where
  "invalid_report =
     \<lparr>columns = [COL_ID, COL_RECEIVED, COL_REQUESTED],
      rows = [[CStr (ascii ''A1''), CInt 369, CStr (ascii ''934 '' @ [0x41A, 0x413])],
              [CStr (ascii ''I123''), CStr (ascii ''abc''), CStr (ascii ''100'')]]\<rparr>"

text \<open>A report without the columns of the identifier and of the quantity requested.\<close>

definition incomplete_report :: dataframe where
  "incomplete_report =
     \<lparr>columns = [COL_RECEIVED, ascii ''Note''], rows = [[CInt 506, CStr (ascii ''x'')]]\<rparr>"

text \<open>A report in which no request exceeds the receipt.\<close>

definition satisfied_report :: dataframe where
  "satisfied_report =
     \<lparr>columns = [COL_ID, COL_RECEIVED, COL_REQUESTED],
      rows = [[CStr (ascii ''I46872''), CInt 506, CStr (ascii ''358 '' @ [0x41C, 0x33])],
              [CFloat NaN, CInt 369, CStr (ascii ''80 '' @ [0x41C, 0x33])]]\<rparr>"

text \<open>
  Two reports that already have a column with the label of the discrepancy: in the first
  it is a column of floats, with the value 5.5.
\<close>

definition relabelled_report :: dataframe where
  "relabelled_report =
     \<lparr>columns = [COL_ID, COL_RECEIVED, COL_REQUESTED, COL_DISCREPANCY],
      rows = [[CStr (ascii ''727698''), CInt 723, CStr (ascii ''934 '' @ [0x41A, 0x413]),
               CFloat (Fin (11 / 2))]]\<rparr>"

definition relabelled_satisfied_report :: dataframe where
  "relabelled_satisfied_report =
     \<lparr>columns = [COL_DISCREPANCY, COL_ID, COL_RECEIVED, COL_REQUESTED],
      rows = [[CStr (ascii ''old''), CStr (ascii ''694304''), CInt 369,
               CStr (ascii ''80 '' @ [0x41C, 0x33])]]\<rparr>"

text \<open>
  A report with quantities that the 64-bit format rounds: the numerals of the first row
  read as the same float, and the difference of the floats of 0.3 and 0.1 is not the float
  of 0.2.
\<close>

definition rounded_report :: dataframe where
  "rounded_report =
     \<lparr>columns = [COL_ID, COL_RECEIVED, COL_REQUESTED],
      rows = [[CStr (ascii ''A1''), CStr (ascii ''9007199254740992''), CStr (ascii ''9007199254740993'')],
              [CStr (ascii ''A2''), CStr (ascii ''0,1''), CStr (ascii ''0,3'')]]\<rparr>"

text \<open>A report whose only row has an empty identifier.\<close>

definition anonymous_report :: dataframe where
  "anonymous_report =
     \<lparr>columns = [COL_ID, COL_RECEIVED, COL_REQUESTED],
      rows = [[CFloat NaN, CInt 723, CStr (ascii ''934 '' @ [0x41A, 0x413])]]\<rparr>"

text \<open>A service that has taken one upload of unreadable content up to its \<open>await\<close>.\<close>

definition idle_server :: server where
  "idle_server = \<lparr>tasks = Map.empty, files = Map.empty, reading = [], scheduled = []\<rparr>"

definition broken_upload :: upload where
  "broken_upload =
     \<lparr>up_task_id = ascii ''t1'',
      up_input_path = path_join TEMP_DIR (ascii ''t1'' @ ascii ''_input.xlsx''),
      up_output_path = path_join TEMP_DIR (ascii ''t1'' @ ascii ''_output.xlsx''),
      up_content = Unreadable (ValueError (ascii ''bad''))\<rparr>"

definition receiving_server :: server where
  "receiving_server =
     snd (upload_file_begin (ascii ''report.xlsx'') (Unreadable (ValueError (ascii ''bad'')))
            (ascii ''t1'') idle_server)"

section \<open>Evaluation of the definitions on concrete input\<close>

lemmas eval_float =
  py_float_def to_ascii_def is_digit_def c_strip_def c_isspace_def parse_decimal_def
  parse_sign_def parse_exponent_def digits_val_def pow10_def parse_inf_or_nan_def lower_def

lemmas eval_clean = clean_def units_def replace_def strip_def isspace_def ascii_def

lemmas eval_cols = COL_ID_def COL_RECEIVED_def COL_REQUESTED_def COL_DISCREPANCY_def
  required_columns_def

section \<open>Rounding to the 64-bit format\<close>

lemma bit_length_0 [simp]: "bit_length 0 = 0"
  by (simp add: bit_length.simps)

lemma bit_length_pos: "0 < n \<Longrightarrow> bit_length n = Suc (bit_length (n div 2))"
  by (simp add: bit_length.simps)

lemma bit_length_upper: "n < 2 ^ bit_length n"
proof (induction n rule: bit_length.induct)
  case (1 n)
  show ?case
  proof (cases "n = 0")
    case True
    then show ?thesis by simp
  next
    case False
    with 1 have "n div 2 < 2 ^ bit_length (n div 2)" by simp
    then have "n < 2 * 2 ^ bit_length (n div 2)" by linarith
    then show ?thesis using False by (simp add: bit_length_pos)
  qed
qed

lemma bit_length_lower: "0 < n \<Longrightarrow> 2 ^ (bit_length n - 1) \<le> n"
proof (induction n rule: bit_length.induct)
  case (1 n)
  show ?case
  proof (cases "n div 2 = 0")
    case True
    then have "bit_length n = 1" using "1.prems" by (simp add: bit_length_pos)
    then show ?thesis using "1.prems" by simp
  next
    case False
    then have pos: "0 < n div 2" by simp
    with 1 have ih: "2 ^ (bit_length (n div 2) - 1) \<le> n div 2" by simp
    have "bit_length n - 1 = Suc (bit_length (n div 2) - 1)"
      using "1.prems" pos by (simp add: bit_length_pos [of n] bit_length_pos [of "n div 2"])
    then have "(2::nat) ^ (bit_length n - 1) = 2 * 2 ^ (bit_length (n div 2) - 1)" by simp
    also have "\<dots> \<le> 2 * (n div 2)" using ih by simp
    also have "\<dots> \<le> n" by simp
    finally show ?thesis .
  qed
qed

lemma bit_length_le: "n < 2 ^ k \<Longrightarrow> bit_length n \<le> k"
proof (cases "n = 0")
  case True
  then show ?thesis by simp
next
  case False
  assume less: "n < 2 ^ k"
  from False have "2 ^ (bit_length n - 1) \<le> n" by (intro bit_length_lower) simp
  also note less
  finally have "(2::nat) ^ (bit_length n - 1) < 2 ^ k" .
  then have "bit_length n - 1 < k" by simp
  then show ?thesis by linarith
qed

lemma bit_length_ge1: "0 < n \<Longrightarrow> 1 \<le> bit_length n"
  by (simp add: bit_length_pos)

lemma pow2_powi: "pow2 k = 2 powi k"
  by (simp add: pow2_def power_int_def power_inverse inverse_eq_divide field_simps)

lemma pow2_pos [simp]: "0 < pow2 k"
  by (simp add: pow2_def)

lemma pow2_add: "pow2 (a + b) = pow2 a * pow2 b"
  by (simp add: pow2_powi power_int_add)

lemma pow2_mono: "a \<le> b \<Longrightarrow> pow2 a \<le> pow2 b"
  by (simp add: pow2_powi power_int_increasing)

lemma pow2_nat: "pow2 (int n) = 2 ^ n"
  by (simp add: pow2_def)

text \<open>\<open>floor_log2\<close> gives a power of two that is not above its argument.\<close>

lemma floor_log2_lower:
  assumes "0 < a"
  shows "pow2 (floor_log2 a) \<le> a"
proof (cases "1 \<le> a")
  case True
  let ?n = "nat \<lfloor>a\<rfloor>"
  have n: "0 < ?n" using True by simp
  have "floor_log2 a = int (bit_length ?n - 1)"
    using True bit_length_ge1 [OF n] by (simp add: floor_log2_def)
  then have "pow2 (floor_log2 a) = 2 ^ (bit_length ?n - 1)" by (simp add: pow2_nat)
  also have "\<dots> = of_nat (2 ^ (bit_length ?n - 1))" by simp
  also have "\<dots> \<le> of_nat ?n" using bit_length_lower [OF n] by (simp only: of_nat_le_iff)
  also have "\<dots> = of_int \<lfloor>a\<rfloor>" using True by simp
  also have "\<dots> \<le> a" by simp
  finally show ?thesis .
next
  case False
  let ?n = "nat (\<lceil>1 / a\<rceil> - 1)"
  have "0 < \<lceil>1 / a\<rceil>" using assms by (simp add: zero_less_ceiling)
  then have c: "1 \<le> \<lceil>1 / a\<rceil>" by linarith
  have "1 / a \<le> of_int \<lceil>1 / a\<rceil>" by simp
  also have "\<lceil>1 / a\<rceil> = int ?n + 1" using nat_0_le [of "\<lceil>1 / a\<rceil> - 1"] c by linarith
  also have "rat_of_int (int ?n + 1) = of_nat (?n + 1)"
    by (simp only: of_int_add of_int_of_nat_eq of_int_1 of_nat_add of_nat_1)
  also have "\<dots> \<le> of_nat (2 ^ bit_length ?n)"
    using bit_length_upper [of ?n] by (simp only: of_nat_le_iff)
  finally have "1 / a \<le> 2 ^ bit_length ?n" by simp
  then have "1 / 2 ^ bit_length ?n \<le> a" using assms by (simp add: field_simps)
  moreover have "pow2 (floor_log2 a) = 1 / 2 ^ bit_length ?n"
    using False by (simp add: floor_log2_def pow2_def)
  ultimately show ?thesis by simp
qed

lemma round_half_even_int [simp]: "round_half_even (of_int k) = k"
  by (simp add: round_half_even_def)

lemma round_half_even_ge1: "1 \<le> x \<Longrightarrow> 1 \<le> round_half_even x"
proof -
  assume "1 \<le> x"
  then have "1 \<le> \<lfloor>x\<rfloor>" by simp
  moreover have "\<lfloor>x\<rfloor> \<le> round_half_even x" by (simp add: round_half_even_def Let_def)
  ultimately show ?thesis by linarith
qed

text \<open>Every finite result of the rounding is a multiple of the least positive float.\<close>

lemma round64_grid:
  assumes "round64 q = Fin v"
  shows "\<exists>k::int. v = of_int k * pow2 (- 1074)"
proof (cases "q = 0")
  case True
  with assms have "v = of_int 0 * pow2 (- 1074)" by (simp add: round64_def)
  then show ?thesis ..
next
  case False
  define e where "e = max (floor_log2 \<bar>q\<bar> - 52) (- 1074)"
  define m where "m = round_half_even (\<bar>q\<bar> / pow2 e)"
  have v: "v = (if q < 0 then - (of_int m * pow2 e) else of_int m * pow2 e)"
    using assms False by (simp add: round64_def Let_def e_def m_def split: if_splits)
  have "0 \<le> e + 1074" by (simp add: e_def)
  then obtain n where n: "e + 1074 = int n" using nonneg_int_cases by blast
  have "e = int n + (- 1074)" using n by linarith
  then have "pow2 e = pow2 (int n) * pow2 (- 1074)" by (simp only: pow2_add)
  then have pe: "pow2 e = of_int (2 ^ n) * pow2 (- 1074)" by (simp add: pow2_nat)
  show ?thesis
  proof (cases "q < 0")
    case True
    then have "v = of_int (- (m * 2 ^ n)) * pow2 (- 1074)" using v pe by simp
    then show ?thesis ..
  next
    case False
    then have "v = of_int (m * 2 ^ n) * pow2 (- 1074)" using v pe by simp
    then show ?thesis ..
  qed
qed

text \<open>
  A rational from the least positive float on is not rounded to zero: the format has the
  subnormal numbers.
\<close>

lemma round64_positive:
  assumes "pow2 (- 1074) \<le> q"
  shows "gt (round64 q) (Fin 0)"
proof -
  have q: "0 < q" using assms pow2_pos [of "- 1074"] by linarith
  define e where "e = max (floor_log2 q - 52) (- 1074)"
  define m where "m = round_half_even (q / pow2 e)"
  have "pow2 e \<le> q"
  proof (cases "floor_log2 q - 52 \<le> - 1074")
    case True
    then have "e = - 1074" by (simp add: e_def)
    with assms show ?thesis by simp
  next
    case False
    then have "e = floor_log2 q - 52" using q by (simp add: e_def)
    then have "pow2 e \<le> pow2 (floor_log2 q)" by (simp add: pow2_mono)
    also have "\<dots> \<le> q" using q by (rule floor_log2_lower)
    finally show ?thesis .
  qed
  then have "1 \<le> q / pow2 e" by (simp add: field_simps)
  then have "1 \<le> m" unfolding m_def by (rule round_half_even_ge1)
  then have "0 < rat_of_int m * pow2 e" by simp
  then show ?thesis
    using q unfolding m_def e_def by (simp add: round64_def Let_def)
qed

text \<open>
  The difference of two floats of which the first is the greater is greater than zero
  after its rounding, too.
\<close>

lemma sub_positive:
  assumes "gt a b"
    and "\<And>v. a = Fin v \<Longrightarrow> \<exists>k::int. v = of_int k * pow2 (- 1074)"
    and "\<And>v. b = Fin v \<Longrightarrow> \<exists>k::int. v = of_int k * pow2 (- 1074)"
  shows "gt (sub a b) (Fin 0)"
proof (cases a)
  case (Fin x)
  note a = this
  show ?thesis
  proof (cases b)
    case (Fin y)
    from assms(2) [OF a] obtain i :: int where i: "x = of_int i * pow2 (- 1074)" ..
    from assms(3) [OF Fin] obtain j :: int where j: "y = of_int j * pow2 (- 1074)" ..
    from assms(1) a Fin have "y < x" by simp
    then have "j < i" unfolding i j using pow2_pos [of "- 1074"] by (simp add: mult_less_cancel_right)
    then have "1 \<le> i - j" by simp
    then have "(1::rat) \<le> of_int (i - j)" by (simp only: of_int_1_le_iff)
    then have "1 * pow2 (- 1074) \<le> of_int (i - j) * pow2 (- 1074)"
      by (rule mult_right_mono) (rule less_imp_le, rule pow2_pos)
    then have "pow2 (- 1074) \<le> x - y" unfolding i j by (simp add: algebra_simps)
    then show ?thesis using a Fin by (simp add: round64_positive)
  qed (use assms(1) a in simp_all)
qed (use assms(1) in \<open>cases b; simp\<close>)+

text \<open>
  The rounding step by step, for a positive rational of which the exponent and the
  significand are known; and the rounding of the opposite.
\<close>

lemma round64_pos:
  assumes "0 < q" and "max (floor_log2 q - 52) (- 1074) = e"
    and "round_half_even (q / pow2 e) = m" and "of_int m * pow2 e < pow2 1024"
  shows "round64 q = Fin (of_int m * pow2 e)"
  using assms by (simp add: round64_def Let_def)

lemma round64_minus: "round64 q = Fin v \<Longrightarrow> round64 (- q) = Fin (- v)"
  by (auto simp: round64_def Let_def split: if_splits)

text \<open>An integer of magnitude below \<open>2 ^ 53\<close> is a float.\<close>

lemma round64_nat:
  assumes "0 < n" and "n < 2 ^ 53"
  shows "round64 (of_nat n) = Fin (of_nat n)"
proof -
  have le: "bit_length n \<le> 53" using assms(2) by (rule bit_length_le)
  define d where "d = 53 - bit_length n"
  have a1: "1 \<le> rat_of_nat n" using assms(1) by simp
  have "floor_log2 (of_nat n) = int (bit_length n) - 1"
    using a1 by (simp add: floor_log2_def)
  then have e: "max (floor_log2 (of_nat n) - 52) (- 1074) = - int d"
    using le by (simp add: d_def)
  have pe: "pow2 (- int d) = 1 / 2 ^ d" by (simp add: pow2_powi power_int_minus field_simps)
  have "rat_of_nat n / pow2 (- int d) = of_int (int n * 2 ^ d)" by (simp add: pe)
  then have m: "round_half_even (rat_of_nat n / pow2 (- int d)) = int n * 2 ^ d"
    by (simp only: round_half_even_int)
  have v: "rat_of_int (int n * 2 ^ d) * pow2 (- int d) = of_nat n" by (simp add: pe)
  have "rat_of_nat n < of_nat (2 ^ 53)" using assms(2) by (simp only: of_nat_less_iff)
  also have "rat_of_nat (2 ^ 53) \<le> 2 ^ 1024" by simp
  finally have small: "rat_of_int (int n * 2 ^ d) * pow2 (- int d) < pow2 1024"
    unfolding v by (simp add: pow2_def)
  have "0 < rat_of_nat n" using assms(1) by simp
  from round64_pos [OF this e m small] show ?thesis by (simp only: v)
qed

lemma round64_int:
  assumes "\<bar>i\<bar> < 2 ^ 53"
  shows "round64 (of_int i) = Fin (of_int i)"
proof -
  consider "i = 0" | "0 < i" | "i < 0" by linarith
  then show ?thesis
  proof cases
    case 1
    then show ?thesis by (simp add: round64_def)
  next
    case 2
    then have "0 < nat i" "nat i < 2 ^ 53" using assms by (simp_all add: nat_less_iff)
    then have "round64 (of_nat (nat i)) = Fin (of_nat (nat i))" by (rule round64_nat)
    then show ?thesis using 2 by simp
  next
    case 3
    then have "0 < nat (- i)" "nat (- i) < 2 ^ 53" using assms by (simp_all add: nat_less_iff)
    then have "round64 (of_nat (nat (- i))) = Fin (of_nat (nat (- i)))" by (rule round64_nat)
    then have "round64 (- of_int i) = Fin (- of_int i)" using 3 by simp
    from round64_minus [OF this] show ?thesis by simp
  qed
qed

lemma round64_numeral [simp]:
  "numeral n < (2::int) ^ 53 \<Longrightarrow> round64 (numeral n) = Fin (numeral n)"
  "numeral n < (2::int) ^ 53 \<Longrightarrow> round64 (- numeral n) = Fin (- numeral n)"
  "round64 0 = Fin 0" "round64 1 = Fin 1"
  using round64_int [of "numeral n"] round64_int [of "- numeral n"] round64_int [of 1]
  by (simp_all add: round64_def)

text \<open>The evaluation of the rounding on a quotient of numerals.\<close>

lemma floor_rat_numeral:
  "\<lfloor>numeral a / numeral b :: rat\<rfloor> = numeral a div numeral b"
  "\<lfloor>- (numeral a / numeral b) :: rat\<rfloor> = - numeral a div numeral b"
  using floor_divide_of_int_eq [of "numeral a" "numeral b", where ?'a = rat]
    floor_divide_of_int_eq [of "- numeral a" "numeral b", where ?'a = rat]
  by simp_all

lemmas eval_log2 = floor_log2_def bit_length.simps ceiling_def floor_rat_numeral

lemmas eval_half_even = round_half_even_def pow2_def Let_def floor_rat_numeral

lemma round64_161_2 [simp]: "round64 (161 / 2) = Fin (161 / 2)"
proof -
  have e: "max (floor_log2 (161 / 2) - 52) (- 1074) = - 46" by (simp add: eval_log2)
  have m: "round_half_even ((161 / 2) / pow2 (- 46)) = 5664683906301952"
    by (simp add: eval_half_even)
  have s: "rat_of_int 5664683906301952 * pow2 (- 46) < pow2 1024" by (simp add: pow2_def)
  have "round64 (161 / 2) = Fin (rat_of_int 5664683906301952 * pow2 (- 46))"
    by (rule round64_pos [OF _ e m s]) simp
  then show ?thesis by (simp add: pow2_def)
qed

text \<open>
  The rounding at work: the numeral \<open>9007199254740993\<close>, which is \<open>2 ^ 53 + 1\<close>, reads
  as the float \<open>2 ^ 53\<close>, and \<open>0.3 - 0.1\<close> is the float \<open>0.19999999999999998\<close>, not
  the float of \<open>0.2\<close>.
\<close>

lemma round64_tie:
  "round64 9007199254740993 = Fin 9007199254740992"
  "round64 9007199254740992 = Fin 9007199254740992"
proof -
  have e: "max (floor_log2 9007199254740992 - 52) (- 1074) = 1" by (simp add: eval_log2)
  have m: "round_half_even (9007199254740992 / pow2 1) = 4503599627370496"
    by (simp add: eval_half_even)
  have s: "rat_of_int 4503599627370496 * pow2 1 < pow2 1024" by (simp add: pow2_def)
  have "round64 9007199254740992 = Fin (rat_of_int 4503599627370496 * pow2 1)"
    by (rule round64_pos [OF _ e m s]) simp
  then show "round64 9007199254740992 = Fin 9007199254740992" by (simp add: pow2_def)
next
  have e: "max (floor_log2 9007199254740993 - 52) (- 1074) = 1" by (simp add: eval_log2)
  have m: "round_half_even (9007199254740993 / pow2 1) = 4503599627370496"
    by (simp add: eval_half_even)
  have s: "rat_of_int 4503599627370496 * pow2 1 < pow2 1024" by (simp add: pow2_def)
  have "round64 9007199254740993 = Fin (rat_of_int 4503599627370496 * pow2 1)"
    by (rule round64_pos [OF _ e m s]) simp
  then show "round64 9007199254740993 = Fin 9007199254740992" by (simp add: pow2_def)
qed

lemma round64_tenths:
  "round64 (3 / 10) = Fin (5404319552844595 / 18014398509481984)"
  "round64 (1 / 10) = Fin (3602879701896397 / 36028797018963968)"
  "round64 (1 / 5) = Fin (3602879701896397 / 18014398509481984)"
  "round64 (7205759403792793 / 36028797018963968) = Fin (7205759403792793 / 36028797018963968)"
proof -
  have e: "max (floor_log2 (3 / 10) - 52) (- 1074) = - 54" by (simp add: eval_log2)
  have m: "round_half_even ((3 / 10) / pow2 (- 54)) = 5404319552844595"
    by (simp add: eval_half_even)
  have s: "rat_of_int 5404319552844595 * pow2 (- 54) < pow2 1024" by (simp add: pow2_def)
  have "round64 (3 / 10) = Fin (rat_of_int 5404319552844595 * pow2 (- 54))"
    by (rule round64_pos [OF _ e m s]) simp
  then show "round64 (3 / 10) = Fin (5404319552844595 / 18014398509481984)"
    by (simp add: pow2_def)
next
  have e: "max (floor_log2 (1 / 10) - 52) (- 1074) = - 56" by (simp add: eval_log2)
  have m: "round_half_even ((1 / 10) / pow2 (- 56)) = 7205759403792794"
    by (simp add: eval_half_even)
  have s: "rat_of_int 7205759403792794 * pow2 (- 56) < pow2 1024" by (simp add: pow2_def)
  have "round64 (1 / 10) = Fin (rat_of_int 7205759403792794 * pow2 (- 56))"
    by (rule round64_pos [OF _ e m s]) simp
  then show "round64 (1 / 10) = Fin (3602879701896397 / 36028797018963968)"
    by (simp add: pow2_def)
next
  have e: "max (floor_log2 (1 / 5) - 52) (- 1074) = - 55" by (simp add: eval_log2)
  have m: "round_half_even ((1 / 5) / pow2 (- 55)) = 7205759403792794"
    by (simp add: eval_half_even)
  have s: "rat_of_int 7205759403792794 * pow2 (- 55) < pow2 1024" by (simp add: pow2_def)
  have "round64 (1 / 5) = Fin (rat_of_int 7205759403792794 * pow2 (- 55))"
    by (rule round64_pos [OF _ e m s]) simp
  then show "round64 (1 / 5) = Fin (3602879701896397 / 18014398509481984)"
    by (simp add: pow2_def)
next
  let ?q = "7205759403792793 / 36028797018963968 :: rat"
  have e: "max (floor_log2 ?q - 52) (- 1074) = - 55" by (simp add: eval_log2)
  have m: "round_half_even (?q / pow2 (- 55)) = 7205759403792793"
    by (simp add: eval_half_even)
  have s: "rat_of_int 7205759403792793 * pow2 (- 55) < pow2 1024" by (simp add: pow2_def)
  have "round64 ?q = Fin (rat_of_int 7205759403792793 * pow2 (- 55))"
    by (rule round64_pos [OF _ e m s]) simp
  then show "round64 ?q = Fin ?q"
    by (simp add: pow2_def)
qed

lemma float_rounds:
  "py_float (ascii ''9007199254740993'') = Some (Fin 9007199254740992)"
  "py_float (ascii ''9007199254740992'') = Some (Fin 9007199254740992)"
  "py_float (ascii ''0.3'') = Some (Fin (5404319552844595 / 18014398509481984))"
  "py_float (ascii ''0.1'') = Some (Fin (3602879701896397 / 36028797018963968))"
  "py_float (ascii ''0.2'') = Some (Fin (3602879701896397 / 18014398509481984))"
  by (simp_all add: ascii_def eval_float round64_tie round64_tenths)

lemma sub_rounds:
  "sub (Fin (5404319552844595 / 18014398509481984)) (Fin (3602879701896397 / 36028797018963968)) =
     Fin (7205759403792793 / 36028797018963968)"
  by (simp add: round64_tenths)

section \<open>The normaliser\<close>

lemma replace_nonempty_single:
  "replace_nonempty [a] [b] s = map (\<lambda>c. if c = a then b else c) s"
  by (induction s) simp_all

text \<open>
  C4 as stated fails: for a text that stays unparseable, \<open>normalize_numeric\<close> does not
  return the value it was given but the cleaned text, with a dot for the comma and without
  the unit token and the outer blanks.
\<close>

theorem normalize_numeric_returns_cleaned_text:
  "normalize_numeric (\<lambda>q. []) (CStr (ascii ''1,5 x '' @ [0x41A, 0x413])) = CStr (ascii ''1.5 x'') \<and>
   py_float (ascii ''1.5 x'') = None"
  by (simp add: normalize_numeric_def eval_clean eval_float)

text \<open>
  C4, as the code has it: for a value that is not missing and whose cleaned text \<open>float\<close>
  refuses, \<open>normalize_numeric\<close> returns that cleaned text: the text of the value with
  dots for commas, without the unit tokens and stripped.  It is the value itself when the
  value is a text that the cleaning leaves as it is.
\<close>

theorem normalize_numeric_unparsed_is_cleaned:
  "\<not> isna v \<Longrightarrow> py_float (clean (py_str repr v)) = None \<Longrightarrow>
   normalize_numeric repr v = CStr (clean (py_str repr v)) \<and>
   (v = CStr (clean (py_str repr v)) \<longrightarrow> normalize_numeric repr v = v)"
  by (simp add: normalize_numeric_def)

text \<open>The text \<open>invalid\<close> comes back unchanged.\<close>

theorem normalize_numeric_unparsed_is_cleaned_witness:
  "\<not> isna (CStr (ascii ''invalid'')) \<and>
   py_float (clean (py_str (\<lambda>q. []) (CStr (ascii ''invalid'')))) = None \<and>
   normalize_numeric (\<lambda>q. []) (CStr (ascii ''invalid'')) = CStr (ascii ''invalid'')"
proof -
  have a: "\<not> isna (CStr (ascii ''invalid''))" by simp
  have c: "clean (py_str (\<lambda>q. []) (CStr (ascii ''invalid''))) = ascii ''invalid''"
    by (simp add: eval_clean)
  have b: "py_float (clean (py_str (\<lambda>q. []) (CStr (ascii ''invalid'')))) = None"
    unfolding c by (simp add: ascii_def eval_float)
  show ?thesis using a b c normalize_numeric_unparsed_is_cleaned [OF a b] by simp
qed

text \<open>
  C6: the correction of a material identifier that is a text replaces every letter \<open>I\<close> by
  the digit \<open>1\<close> and leaves every other character as it is, in its place.
\<close>

theorem fix_material_id_text:
  "fix_material_id repr (CStr s) =
     CStr (map (\<lambda>c. if c = of_char CHR ''I'' then of_char CHR ''1'' else c) s)"
  by (simp add: fix_material_id_def replace_def ascii_def replace_nonempty_single)

text \<open>The identifier \<open>I46872\<close> becomes \<open>146872\<close>.\<close>

theorem fix_material_id_text_witness:
  "fix_material_id (\<lambda>q. []) (CStr (ascii ''I46872'')) = CStr (ascii ''146872'')"
  using fix_material_id_text [of "\<lambda>q. []" "ascii ''I46872''"] by (simp add: ascii_def)

section \<open>Removal of the unit tokens\<close>

lemma replace_skip:
  "a \<notin> set p \<Longrightarrow> replace_nonempty (a # t) new (p @ s) = p @ replace_nonempty (a # t) new s"
  by (induction p) auto

lemma replace_hit:
  "t \<noteq> [] \<Longrightarrow> replace_nonempty t new (t @ s) = new @ replace_nonempty t new s"
  by (cases t) simp_all

lemma replace_pass:
  assumes "t \<noteq> []" and "\<forall>p\<in>set ps. p = t \<or> hd t \<notin> set p"
  shows "replace_nonempty t [] (concat ps) = concat (filter (\<lambda>p. p \<noteq> t) ps)"
  using assms(2)
proof (induction ps)
  case Nil
  then show ?case by simp
next
  case (Cons p ps)
  then have IH: "replace_nonempty t [] (concat ps) = concat (filter (\<lambda>p. p \<noteq> t) ps)" by simp
  show ?case
  proof (cases "p = t")
    case True
    then show ?thesis using IH assms(1) by (simp add: replace_hit)
  next
    case False
    with Cons.prems have "hd t \<notin> set p" by simp
    then have "replace_nonempty t [] (p @ concat ps) = p @ replace_nonempty t [] (concat ps)"
      using assms(1) replace_skip [of "hd t" p "tl t" "[]" "concat ps"] by simp
    then show ?thesis using False IH by simp
  qed
qed

lemma replace_passes:
  assumes "\<forall>t\<in>set ts. t \<noteq> []"
  shows "\<forall>p\<in>set ps. admissible ts p \<Longrightarrow>
    foldl (\<lambda>v t. replace_nonempty t [] v) (concat ps) ts = concat (filter (\<lambda>p. p \<notin> set ts) ps)"
  using assms
proof (induction ts arbitrary: ps)
  case Nil
  then show ?case by simp
next
  case (Cons t ts)
  have "replace_nonempty t [] (concat ps) = concat (filter (\<lambda>p. p \<noteq> t) ps)"
    using Cons.prems by (intro replace_pass) auto
  moreover have "foldl (\<lambda>v t. replace_nonempty t [] v) (concat (filter (\<lambda>p. p \<noteq> t) ps)) ts =
      concat (filter (\<lambda>p. p \<notin> set ts) (filter (\<lambda>p. p \<noteq> t) ps))"
    using Cons.prems by (intro Cons.IH) auto
  ultimately show ?case by (simp add: conj_commute)
qed

lemma strip_spaces_left: "list_all isspace l \<Longrightarrow> strip (l @ x) = strip x"
  by (simp add: strip_def list_all_iff dropWhile_append2)

lemma strip_spaces_right:
  assumes "list_all isspace r"
  shows "strip (x @ r) = strip x"
proof (cases "list_all isspace x")
  case True
  then have "\<forall>c\<in>set (x @ r). isspace c" and "\<forall>c\<in>set x. isspace c"
    using assms by (auto simp: list_all_iff)
  then have a: "dropWhile isspace (x @ r) = []" and b: "dropWhile isspace x = []"
    unfolding dropWhile_eq_Nil_conv by blast+
  show ?thesis unfolding strip_def a b by (rule refl)
next
  case False
  then have "dropWhile isspace (x @ r) = dropWhile isspace x @ r"
    by (auto simp: list_all_iff dropWhile_append1)
  moreover have "dropWhile isspace (rev r @ ys) = dropWhile isspace ys" for ys
    using assms by (intro dropWhile_append2) (auto simp: list_all_iff)
  ultimately show ?thesis by (simp add: strip_def)
qed

lemma strip_decompose:
  "\<exists>l r. s = l @ strip s @ r \<and> list_all isspace l \<and> list_all isspace r"
proof -
  let ?d = "dropWhile isspace s"
  have "s = takeWhile isspace s @ ?d" by simp
  moreover have "?d = strip s @ rev (takeWhile isspace (rev ?d))"
  proof -
    have "rev ?d = takeWhile isspace (rev ?d) @ dropWhile isspace (rev ?d)" by simp
    then have "rev (rev ?d) = rev (takeWhile isspace (rev ?d) @ dropWhile isspace (rev ?d))"
      by simp
    then show ?thesis by (simp add: strip_def del: takeWhile_dropWhile_id)
  qed
  moreover have "list_all isspace (takeWhile isspace s)"
    by (auto simp: list_all_iff dest: set_takeWhileD)
  moreover have "list_all isspace (rev (takeWhile isspace (rev ?d)))"
    by (auto simp: list_all_iff dest: set_takeWhileD)
  ultimately show ?thesis by metis
qed

lemma replace_suffix:
  assumes "t \<noteq> []" and "set r \<inter> set t = {}"
  shows "replace_nonempty t new (m @ r) = replace_nonempty t new m @ r"
proof (induction m rule: length_induct)
  case (1 m)
  show ?case
  proof (cases m)
    case Nil
    obtain a t' where t: "t = a # t'" using assms(1) by (cases t) auto
    then have "a \<notin> set r" using assms(2) by auto
    then show ?thesis using replace_skip [of a r t' new "[]"] Nil t by simp
  next
    case (Cons c cs)
    show ?thesis
    proof (cases "take (length t) m = t")
      case True
      then have "length (take (length t) m) = length t" by simp
      then have le: "length t \<le> length m" by simp
      then have a: "take (length t) (m @ r) = t" using True by simp
      have b: "drop (length t) (m @ r) = drop (length t) m @ r" using le by simp
      have "length (drop (length t) m) < length m"
        using assms(1) Cons by simp
      with 1 have "replace_nonempty t new (drop (length t) m @ r) =
          replace_nonempty t new (drop (length t) m) @ r" by blast
      then show ?thesis
        using True a b assms(1) unfolding Cons by simp
    next
      case False
      have "take (length t) (m @ r) \<noteq> t"
      proof
        assume eq: "take (length t) (m @ r) = t"
        show False
        proof (cases "length t \<le> length m")
          case True
          with eq False show False by simp
        next
          case gt: False
          then have "take (length t) (m @ r) = m @ take (length t - length m) r" by simp
          with eq have t: "t = m @ take (length t - length m) r" by simp
          have "take (length t - length m) r \<noteq> []"
          proof
            assume "take (length t - length m) r = []"
            with t have "t = m" by simp
            with gt show False by simp
          qed
          then obtain x where x: "x \<in> set (take (length t - length m) r)"
            by (cases "take (length t - length m) r") auto
          then have "x \<in> set r" by (rule in_set_takeD)
          moreover have "x \<in> set t" using x t by (metis Un_iff set_append)
          ultimately show False using assms(2) by auto
        qed
      qed
      moreover have "length cs < length m" using Cons by simp
      with 1 have "replace_nonempty t new (cs @ r) = replace_nonempty t new cs @ r" by blast
      ultimately show ?thesis
        using False unfolding Cons by simp
    qed
  qed
qed

lemma strip_replace_strip:
  assumes "t \<noteq> []" and "\<forall>c\<in>set t. \<not> isspace c"
  shows "strip (replace_nonempty t [] (strip s)) = strip (replace_nonempty t [] s)"
proof -
  obtain l r where s: "s = l @ strip s @ r" and l: "list_all isspace l" and r: "list_all isspace r"
    using strip_decompose by blast
  obtain a t' where t: "t = a # t'" using assms(1) by (cases t) auto
  have "a \<notin> set l" using l assms(2) t by (auto simp: list_all_iff)
  then have 1: "replace_nonempty t [] (l @ strip s @ r) = l @ replace_nonempty t [] (strip s @ r)"
    using replace_skip [of a l t' "[]"] t by simp
  have "set r \<inter> set t = {}" using r assms(2) by (auto simp: list_all_iff)
  then have 2: "replace_nonempty t [] (strip s @ r) = replace_nonempty t [] (strip s) @ r"
    using assms(1) by (rule replace_suffix [rotated])
  have "strip (replace_nonempty t [] s) = strip (l @ replace_nonempty t [] (strip s) @ r)"
    using 1 2 s by metis
  also have "\<dots> = strip (replace_nonempty t [] (strip s))"
    using l r by (simp add: strip_spaces_left strip_spaces_right)
  finally show ?thesis by simp
qed

lemma clean_steps:
  assumes "\<forall>t\<in>set ts. t \<noteq> [] \<and> (\<forall>c\<in>set t. \<not> isspace c)"
  shows "ts \<noteq> [] \<Longrightarrow> foldl (\<lambda>v t. strip (replace_nonempty t [] v)) s ts =
           strip (foldl (\<lambda>v t. replace_nonempty t [] v) s ts)"
  using assms
proof (induction ts arbitrary: s)
  case Nil
  then show ?case by simp
next
  case (Cons t ts)
  show ?case
  proof (cases ts)
    case Nil
    then show ?thesis by simp
  next
    case (Cons t2 ts2)
    have t2: "t2 \<noteq> []" "\<forall>c\<in>set t2. \<not> isspace c"
      using Cons.prems(2) Cons by auto
    have "foldl (\<lambda>v t. strip (replace_nonempty t [] v)) (strip (replace_nonempty t [] s)) ts =
          foldl (\<lambda>v t. strip (replace_nonempty t [] v)) (replace_nonempty t [] s) ts"
      unfolding Cons by (simp add: strip_replace_strip [OF t2])
    also have "\<dots> = strip (foldl (\<lambda>v t. replace_nonempty t [] v) (replace_nonempty t [] s) ts)"
      using Cons.prems Cons by (intro Cons.IH) auto
    finally show ?thesis by simp
  qed
qed

lemma units_tokens: "\<forall>t\<in>set units. t \<noteq> [] \<and> (\<forall>c\<in>set t. \<not> isspace c)"
  by (simp add: units_def isspace_def)

lemma unit_free_letter: "unit_free p \<Longrightarrow> x \<in> unit_letters \<Longrightarrow> x \<notin> set p"
  by (auto simp: unit_free_def list_all_iff)

lemma admissible_heads: "\<forall>t\<in>set ts. hd t \<notin> set p \<Longrightarrow> admissible ts p"
  by (induction ts) simp_all

lemma units_heads: "\<forall>t\<in>set units. hd t \<in> unit_letters"
  by (simp add: units_def unit_letters_def)

lemma admissible_unit_free: "unit_free p \<Longrightarrow> admissible units p"
  using units_heads by (intro admissible_heads) (auto dest: unit_free_letter)

lemma admissible_unit: "p \<in> set units \<Longrightarrow> admissible units p"
  by (auto simp: units_def)

lemma unit_free_not_unit: "unit_free p \<Longrightarrow> p \<notin> set units"
proof
  assume uf: "unit_free p" and "p \<in> set units"
  then have "hd p \<in> unit_letters" and "hd p \<in> set p"
    using units_heads by (auto simp: units_def)
  with uf show False by (auto dest: unit_free_letter)
qed

lemma dots_unit: "p \<in> set units \<Longrightarrow> map (\<lambda>c. if c = 44 then 46 else c) p = p"
  by (auto simp: units_def)

lemma dot_no_unit_letter: "46 \<notin> unit_letters"
  by (simp add: unit_letters_def)

lemma dots_unit_free: "unit_free p \<Longrightarrow> unit_free (map (\<lambda>c. if c = 44 then 46 else c) p)"
  using dot_no_unit_letter by (induction p) (simp_all add: unit_free_def)

lemma replace_comma: "replace (ascii '','') (ascii ''.'') s = map (\<lambda>c. if c = 44 then 46 else c) s"
  by (simp add: replace_def ascii_def replace_nonempty_single)

lemma clean_pieces:
  assumes "list_all (\<lambda>p. p \<in> set units \<or> unit_free p) ps"
  shows "clean (concat ps) = strip (replace (ascii '','') (ascii ''.'') (without_units ps))"
proof -
  let ?f = "map (\<lambda>c. if c = 44 then 46 else (c::nat))"
  let ?qs = "map ?f ps"
  have pieces: "p \<in> set units \<or> unit_free p" if "p \<in> set ps" for p
    using assms that by (simp add: list_all_iff)
  have adm: "\<forall>q\<in>set ?qs. admissible units q"
  proof
    fix q assume "q \<in> set ?qs"
    then obtain p where p: "p \<in> set ps" and q: "q = ?f p" by auto
    from pieces [OF p] show "admissible units q"
    proof
      assume "p \<in> set units"
      then show ?thesis unfolding q by (simp only: dots_unit admissible_unit)
    next
      assume "unit_free p"
      then show ?thesis unfolding q by (intro admissible_unit_free dots_unit_free)
    qed
  qed
  have keep: "(?f p \<notin> set units) = (p \<notin> set units)" if "p \<in> set ps" for p
    using pieces [OF that] by (auto simp: dots_unit dest: dots_unit_free unit_free_not_unit)
  have "clean (concat ps) =
      foldl (\<lambda>v t. strip (replace_nonempty t [] v)) (?f (concat ps)) units"
    unfolding clean_def replace_comma
    using units_tokens by (intro foldl_cong refl) (simp add: replace_def)
  also have "\<dots> = strip (foldl (\<lambda>v t. replace_nonempty t [] v) (?f (concat ps)) units)"
    using units_tokens by (intro clean_steps) (simp_all add: units_def)
  also have "?f (concat ps) = concat ?qs"
    by (simp add: map_concat)
  also have "foldl (\<lambda>v t. replace_nonempty t [] v) (concat ?qs) units =
      concat (filter (\<lambda>p. p \<notin> set units) ?qs)"
    using units_tokens adm by (intro replace_passes) auto
  also have "filter (\<lambda>p. p \<notin> set units) ?qs = map ?f (filter (\<lambda>p. p \<notin> set units) ps)"
    unfolding filter_map comp_def using keep
    by (intro arg_cong [where f = "map ?f"] filter_cong refl) simp
  finally show ?thesis
    by (simp add: without_units_def replace_comma map_concat)
qed

lemma normalize_numeric_text:
  "normalize_numeric repr (CStr s) =
     (case py_float (clean s) of Some x \<Rightarrow> CFloat x | None \<Rightarrow> CStr (clean s))"
  by (simp add: normalize_numeric_def split: option.splits)

lemma clean_unit_free_dots:
  assumes "unit_free w"
  shows "clean (replace (ascii '','') (ascii ''.'') w) = strip (replace (ascii '','') (ascii ''.'') w)"
proof -
  let ?w = "replace (ascii '','') (ascii ''.'') w"
  have uf: "unit_free ?w" using assms by (simp add: replace_comma dots_unit_free)
  then have "list_all (\<lambda>p. p \<in> set units \<or> unit_free p) [?w]" by simp
  then have "clean (concat [?w]) = strip (replace (ascii '','') (ascii ''.'') (without_units [?w]))"
    by (rule clean_pieces)
  moreover have "without_units [?w] = ?w"
    using uf by (simp add: without_units_def unit_free_not_unit)
  moreover have "replace (ascii '','') (ascii ''.'') ?w = ?w"
    by (simp add: replace_comma comp_def)
  ultimately show ?thesis by simp
qed

lemma unit_free_without_units:
  assumes "list_all (\<lambda>p. p \<in> set units \<or> unit_free p) ps"
  shows "unit_free (without_units ps)"
  using assms by (induction ps) (auto simp: without_units_def unit_free_def)

text \<open>
  C3, as the code has it: the unit tokens are the seven Cyrillic tokens of \<open>units\<close>
  (there is no Latin spelling and no upper-case token for pieces).  For a text made of
  pieces, each a unit token or a text without the letters of the units,
  \<open>normalize_numeric\<close> parses the text that is left when the tokens are taken out and
  every comma is a dot, stripped of outer white space; so it yields a float exactly when
  it yields that float for the text without the tokens and with dots.  The pieces need no
  white space between them, and every token among them is removed.
\<close>

theorem units_stripped:
  assumes "list_all (\<lambda>p. p \<in> set units \<or> unit_free p) ps"
  shows "normalize_numeric repr (CStr (concat ps)) =
           (case py_float (strip (replace (ascii '','') (ascii ''.'') (without_units ps))) of
              Some x \<Rightarrow> CFloat x
            | None \<Rightarrow> CStr (strip (replace (ascii '','') (ascii ''.'') (without_units ps)))) \<and>
         (normalize_numeric repr (CStr (concat ps)) = CFloat x \<longleftrightarrow>
          normalize_numeric repr (CStr (replace (ascii '','') (ascii ''.'') (without_units ps))) = CFloat x)"
  by (simp add: normalize_numeric_text clean_pieces [OF assms]
      clean_unit_free_dots [OF unit_free_without_units [OF assms]] split: option.splits)

text \<open>
  The Cyrillic \<open>80,0 M3\<close> gives 80.0, and a text with two tokens and no blank gives 80.5.
\<close>

theorem units_stripped_witness:
  "list_all (\<lambda>p. p \<in> set units \<or> unit_free p) [ascii ''80,0 '', [0x41C, 0x33]] \<and>
   normalize_numeric (\<lambda>q. []) (CStr (ascii ''80,0 '' @ [0x41C, 0x33])) = CFloat (Fin 80) \<and>
   normalize_numeric (\<lambda>q. []) (CStr (ascii ''8'' @ [0x448, 0x442] @ ascii ''0,5'' @ [0x43A, 0x433])) =
     CFloat (Fin (161 / 2))"
proof -
  have a: "list_all (\<lambda>p. p \<in> set units \<or> unit_free p) [ascii ''80,0 '', [0x41C, 0x33]]"
    by (simp add: units_def unit_free_def unit_letters_def ascii_def)
  have b: "list_all (\<lambda>p. p \<in> set units \<or> unit_free p)
      [ascii ''8'', [0x448, 0x442], ascii ''0,5'', [0x43A, 0x433]]"
    by (simp add: units_def unit_free_def unit_letters_def ascii_def)
  have c: "without_units [ascii ''80,0 '', [0x41C, 0x33]] = ascii ''80,0 ''"
    by (simp add: without_units_def units_def ascii_def)
  have d: "without_units [ascii ''8'', [0x448, 0x442], ascii ''0,5'', [0x43A, 0x433]] = ascii ''80,5''"
    by (simp add: without_units_def units_def ascii_def)
  have e: "py_float (strip (replace (ascii '','') (ascii ''.'') (ascii ''80,0 ''))) = Some (Fin 80)"
    by (simp add: replace_def strip_def isspace_def ascii_def eval_float)
  have f: "py_float (strip (replace (ascii '','') (ascii ''.'') (ascii ''80,5''))) = Some (Fin (161 / 2))"
    by (simp add: replace_def strip_def isspace_def ascii_def eval_float)
  show ?thesis
    using a units_stripped [OF a, of "\<lambda>q. []"] units_stripped [OF b, of "\<lambda>q. []"]
    by (simp add: c d e f)
qed

text \<open>
  C3 as stated fails: with the Latin letters \<open>M3\<close> of the claim, \<open>80 M3\<close> and
  \<open>80,0 M3\<close> are not numbers for \<open>normalize_numeric\<close>, which returns them as texts
  with the letters in place, while \<open>80\<close> alone gives 80.0.
\<close>

theorem latin_unit_not_stripped:
  "normalize_numeric (\<lambda>q. []) (CStr (ascii ''80 M3'')) = CStr (ascii ''80 M3'') \<and>
   normalize_numeric (\<lambda>q. []) (CStr (ascii ''80,0 M3'')) = CStr (ascii ''80.0 M3'') \<and>
   normalize_numeric (\<lambda>q. []) (CStr (ascii ''80'')) = CFloat (Fin 80)"
  by (simp add: normalize_numeric_def eval_clean eval_float)

section \<open>The pipeline row by row\<close>

lemma index_of_less: "c \<in> set cs \<Longrightarrow> index_of cs c < length cs"
  by (induction cs) auto

lemma nth_index_of: "c \<in> set cs \<Longrightarrow> cs ! index_of cs c = c"
  by (induction cs) auto

lemma index_of_eq_iff:
  "a \<in> set cs \<Longrightarrow> b \<in> set cs \<Longrightarrow> index_of cs a = index_of cs b \<longleftrightarrow> a = b"
  by (metis nth_index_of)

lemma col_names_distinct:
  "COL_ID \<noteq> COL_RECEIVED" "COL_ID \<noteq> COL_REQUESTED" "COL_RECEIVED \<noteq> COL_REQUESTED"
  "COL_RECEIVED \<noteq> COL_ID" "COL_REQUESTED \<noteq> COL_ID" "COL_REQUESTED \<noteq> COL_RECEIVED"
  by (simp_all add: COL_ID_def COL_RECEIVED_def COL_REQUESTED_def)

lemma columns_apply_column [simp]: "columns (apply_column df col f) = columns df"
  by (simp add: apply_column_def)

lemma rows_apply_column:
  "rows (apply_column df col f) =
     map (\<lambda>r. r[index_of (columns df) col := f (r ! index_of (columns df) col)]) (rows df)"
  by (simp add: apply_column_def cell_at_def)

lemma normalize_row_steps:
  assumes i: "i < length r" and j: "j < length r" and k: "k < length r"
    and d: "i \<noteq> j" "i \<noteq> k" "j \<noteq> k"
  shows "(let r1 = r[i := f (r ! i)];
              r2 = r1[j := g (r1 ! j)];
              r3 = r2[k := g (r2 ! k)];
              r4 = r3[j := h (r3 ! j)];
              r5 = r4[k := h (r4 ! k)]
          in r5) = r[i := f (r ! i), j := h (g (r ! j)), k := h (g (r ! k))]"
  using assms by (simp add: Let_def list_update_swap [of j k])

lemma normalized_rows:
  assumes wf: "wf_dataframe df" and req: "set required_columns \<subseteq> set (columns df)"
  shows "normalized repr df = df\<lparr>rows := map (normalize_row repr df) (rows df)\<rparr>"
proof -
  let ?i = "index_of (columns df) COL_ID"
  let ?j = "index_of (columns df) COL_RECEIVED"
  let ?k = "index_of (columns df) COL_REQUESTED"
  from req have mem: "COL_ID \<in> set (columns df)" "COL_RECEIVED \<in> set (columns df)"
    "COL_REQUESTED \<in> set (columns df)"
    by (auto simp: required_columns_def)
  have lt: "?i < length (columns df)" "?j < length (columns df)" "?k < length (columns df)"
    using mem by (simp_all add: index_of_less)
  have ne: "?i \<noteq> ?j" "?i \<noteq> ?k" "?j \<noteq> ?k"
    using mem by (simp_all add: index_of_eq_iff col_names_distinct)
  have row: "normalize_row repr df r =
      (let r1 = r[?i := fix_material_id repr (r ! ?i)];
           r2 = r1[?j := normalize_numeric repr (r1 ! ?j)];
           r3 = r2[?k := normalize_numeric repr (r2 ! ?k)];
           r4 = r3[?j := CFloat (to_numeric (r3 ! ?j))];
           r5 = r4[?k := CFloat (to_numeric (r4 ! ?k))]
       in r5)" if "length r = length (columns df)" for r
    unfolding normalize_row_def quantity_def cell_at_def
    using normalize_row_steps [of ?i r ?j ?k "fix_material_id repr" "normalize_numeric repr"
        "\<lambda>x. CFloat (to_numeric x)"] lt ne that
    by simp
  have "rows (normalized repr df) =
      map (\<lambda>r. (let r1 = r[?i := fix_material_id repr (r ! ?i)];
           r2 = r1[?j := normalize_numeric repr (r1 ! ?j)];
           r3 = r2[?k := normalize_numeric repr (r2 ! ?k)];
           r4 = r3[?j := CFloat (to_numeric (r3 ! ?j))];
           r5 = r4[?k := CFloat (to_numeric (r4 ! ?k))]
       in r5)) (rows df)"
    by (simp add: normalized_def rows_apply_column Let_def comp_def)
  also have "\<dots> = map (normalize_row repr df) (rows df)"
    using wf by (intro map_cong refl) (simp add: wf_dataframe_def list_all_iff row)
  finally have "rows (normalized repr df) = map (normalize_row repr df) (rows df)" .
  moreover have "columns (normalized repr df) = columns df"
    by (simp add: normalized_def Let_def)
  moreover have "dataframe.more (normalized repr df) = dataframe.more df"
    by (simp add: normalized_def Let_def apply_column_def)
  ultimately show ?thesis by simp
qed

lemma length_normalize_row [simp]: "length (normalize_row repr df r) = length r"
  by (simp add: normalize_row_def)

lemma normalize_row_numbers:
  assumes "wf_dataframe df" "set required_columns \<subseteq> set (columns df)"
    "length r = length (columns df)"
  shows "cell_at df COL_RECEIVED (normalize_row repr df r) = CFloat (quantity repr df COL_RECEIVED r)"
    and "cell_at df COL_REQUESTED (normalize_row repr df r) = CFloat (quantity repr df COL_REQUESTED r)"
    and "cell_at df COL_ID (normalize_row repr df r) = fix_material_id repr (cell_at df COL_ID r)"
proof -
  from assms(2) have mem: "COL_ID \<in> set (columns df)" "COL_RECEIVED \<in> set (columns df)"
    "COL_REQUESTED \<in> set (columns df)"
    by (auto simp: required_columns_def)
  have lt: "index_of (columns df) COL_ID < length r" "index_of (columns df) COL_RECEIVED < length r"
    "index_of (columns df) COL_REQUESTED < length r"
    using mem assms(3) by (simp_all add: index_of_less)
  have ne: "index_of (columns df) COL_ID \<noteq> index_of (columns df) COL_RECEIVED"
    "index_of (columns df) COL_ID \<noteq> index_of (columns df) COL_REQUESTED"
    "index_of (columns df) COL_RECEIVED \<noteq> index_of (columns df) COL_REQUESTED"
    using mem by (simp_all add: index_of_eq_iff col_names_distinct)
  show "cell_at df COL_RECEIVED (normalize_row repr df r) = CFloat (quantity repr df COL_RECEIVED r)"
    using lt ne by (simp add: cell_at_def normalize_row_def)
  show "cell_at df COL_REQUESTED (normalize_row repr df r) = CFloat (quantity repr df COL_REQUESTED r)"
    using lt ne by (simp add: cell_at_def normalize_row_def)
  show "cell_at df COL_ID (normalize_row repr df r) = fix_material_id repr (cell_at df COL_ID r)"
    using lt ne by (simp add: cell_at_def normalize_row_def)
qed

lemma cell_at_cong: "columns df' = columns df \<Longrightarrow> cell_at df' col r = cell_at df col r"
  by (simp add: cell_at_def)

lemma number_normalized:
  assumes "wf_dataframe df" "set required_columns \<subseteq> set (columns df)"
    "length r = length (columns df)"
  shows "number (normalized repr df) COL_RECEIVED (normalize_row repr df r) = quantity repr df COL_RECEIVED r"
    and "number (normalized repr df) COL_REQUESTED (normalize_row repr df r) = quantity repr df COL_REQUESTED r"
  using normalize_row_numbers [OF assms, of repr] assms
  by (simp_all add: number_def normalized_rows cell_at_def)

lemma isna_CFloat [simp]: "isna (CFloat x) \<longleftrightarrow> x = NaN"
  by (cases x) simp_all

lemma has_nan_normalized:
  assumes "wf_dataframe df" "set required_columns \<subseteq> set (columns df)"
  shows "has_nan (normalized repr df) \<longleftrightarrow>
    (\<exists>r\<in>set (rows df). quantity repr df COL_RECEIVED r = NaN \<or> quantity repr df COL_REQUESTED r = NaN)"
proof -
  have len: "length r = length (columns df)" if "r \<in> set (rows df)" for r
    using assms(1) that by (simp add: wf_dataframe_def list_all_iff)
  have "has_nan (normalized repr df) \<longleftrightarrow>
     (\<exists>r\<in>set (rows df). isna (cell_at df COL_RECEIVED (normalize_row repr df r)) \<or>
        isna (cell_at df COL_REQUESTED (normalize_row repr df r)))"
    by (simp add: has_nan_def normalized_rows [OF assms] list_ex_iff cell_at_def)
  also have "\<dots> \<longleftrightarrow> (\<exists>r\<in>set (rows df). quantity repr df COL_RECEIVED r = NaN \<or> quantity repr df COL_REQUESTED r = NaN)"
    using normalize_row_numbers [OF assms] len by (intro bex_cong refl) simp
  finally show ?thesis .
qed

lemma filtered_normalized:
  assumes "wf_dataframe df" "set required_columns \<subseteq> set (columns df)"
  shows "filtered (normalized repr df) =
    df\<lparr>rows := map (normalize_row repr df) (filter (exceeds repr df) (rows df))\<rparr>"
proof -
  have len: "length r = length (columns df)" if "r \<in> set (rows df)" for r
    using assms(1) that by (simp add: wf_dataframe_def list_all_iff)
  have "filter (\<lambda>r. gt (number (normalized repr df) COL_REQUESTED r) (number (normalized repr df) COL_RECEIVED r))
          (map (normalize_row repr df) (rows df)) =
        map (normalize_row repr df) (filter (exceeds repr df) (rows df))"
    unfolding filter_map comp_def
    using number_normalized [OF assms] len
    by (intro arg_cong [where f = "map (normalize_row repr df)"] filter_cong refl) (simp add: exceeds_def)
  then show ?thesis
    by (simp add: filtered_def normalized_rows [OF assms])
qed

lemma map2_same: "map2 f (map g xs) (map h xs) = map (\<lambda>x. f (g x) (h x)) xs"
  by (induction xs) simp_all

lemma map2_same': "map2 f xs (map h xs) = map (\<lambda>x. f x (h x)) xs"
  by (induction xs) simp_all

lemma add_discrepancy_filtered:
  assumes "wf_dataframe df" "set required_columns \<subseteq> set (columns df)"
  shows "add_discrepancy (filtered (normalized repr df)) =
    df\<lparr>columns := output_columns df,
       rows := map (output_row repr df) (filter (exceeds repr df) (rows df))\<rparr>"
proof -
  let ?kept = "filter (exceeds repr df) (rows df)"
  let ?f = "df\<lparr>rows := map (normalize_row repr df) ?kept\<rparr>"
  have len: "length r = length (columns df)" if "r \<in> set ?kept" for r
    using assms(1) that by (simp add: wf_dataframe_def list_all_iff)
  have disc: "map (discrepancy ?f) (rows ?f) = map (\<lambda>r. CFloat (shortfall repr df r)) ?kept"
  proof -
    have "discrepancy ?f (normalize_row repr df r) = CFloat (shortfall repr df r)"
      if "r \<in> set ?kept" for r
      using normalize_row_numbers [OF assms len [OF that], of repr]
      by (simp add: discrepancy_def number_def shortfall_def cell_at_def)
    then show ?thesis by (simp add: comp_def)
  qed
  show ?thesis
    unfolding filtered_normalized [OF assms] add_discrepancy_def disc
    by (simp add: set_column_def output_columns_def output_row_def map2_same comp_def
        zip_map_map zip_same_conv_map)
qed

lemma process_dataframe_success:
  assumes "wf_dataframe df" "\<not> df_empty df" "set required_columns \<subseteq> set (columns df)"
    "\<forall>r\<in>set (rows df). quantity repr df COL_RECEIVED r \<noteq> NaN \<and> quantity repr df COL_REQUESTED r \<noteq> NaN"
  shows "process_dataframe repr df =
    Inr (df\<lparr>columns := output_columns df,
           rows := map (output_row repr df) (filter (exceeds repr df) (rows df))\<rparr>)"
proof -
  have "filter (\<lambda>col. col \<notin> set (columns df)) required_columns = []"
    using assms(3) by (auto simp: filter_empty_conv)
  moreover have "\<not> has_nan (normalized repr df)"
    using assms(4) by (simp add: has_nan_normalized [OF assms(1,3)])
  ultimately show ?thesis
    using assms(2) by (simp add: process_dataframe_def Let_def add_discrepancy_filtered [OF assms(1,3)])
qed

lemma process_dataframe_Inr_iff:
  assumes "wf_dataframe df"
  shows "process_dataframe repr df = Inr out \<longleftrightarrow>
    \<not> df_empty df \<and> set required_columns \<subseteq> set (columns df) \<and>
    (\<forall>r\<in>set (rows df). quantity repr df COL_RECEIVED r \<noteq> NaN \<and> quantity repr df COL_REQUESTED r \<noteq> NaN) \<and>
    out = df\<lparr>columns := output_columns df,
           rows := map (output_row repr df) (filter (exceeds repr df) (rows df))\<rparr>"
proof (cases "\<not> df_empty df \<and> set required_columns \<subseteq> set (columns df)")
  case True
  then have ne: "\<not> df_empty df" and req: "set required_columns \<subseteq> set (columns df)" by simp_all
  have none: "filter (\<lambda>col. col \<notin> set (columns df)) required_columns = []"
    using req by (auto simp: filter_empty_conv)
  show ?thesis
  proof (cases "has_nan (normalized repr df)")
    case True
    then show ?thesis
      using ne none has_nan_normalized [OF assms req, of repr]
      by (auto simp: process_dataframe_def Let_def)
  next
    case False
    then have "\<forall>r\<in>set (rows df). quantity repr df COL_RECEIVED r \<noteq> NaN \<and> quantity repr df COL_REQUESTED r \<noteq> NaN"
      using has_nan_normalized [OF assms req, of repr] by blast
    then show ?thesis
      using process_dataframe_success [OF assms ne req] ne req by auto
  qed
next
  case False
  then show ?thesis
    by (auto simp: process_dataframe_def Let_def filter_empty_conv)
qed

text \<open>
  Every finite quantity is the result of a rounding: it comes from \<open>float\<close>.  So the
  discrepancy of a row that passes the filter is greater than zero.
\<close>

lemma parse_inf_or_nan_not_Fin: "parse_inf_or_nan s \<noteq> Some (Fin v)"
  by (simp add: parse_inf_or_nan_def Let_def split: prod.splits)

lemma parse_decimal_grid:
  "parse_decimal s = Some (Fin v) \<Longrightarrow> \<exists>k::int. v = of_int k * pow2 (- 1074)"
  by (auto simp: parse_decimal_def Let_def split: prod.splits if_splits option.splits
      dest: round64_grid)

lemma py_float_grid:
  "py_float s = Some (Fin v) \<Longrightarrow> \<exists>k::int. v = of_int k * pow2 (- 1074)"
  by (auto simp: py_float_def Let_def parse_inf_or_nan_not_Fin split: option.splits if_splits
      dest: parse_decimal_grid)

lemma quantity_float:
  assumes "quantity repr df col r \<noteq> NaN"
  shows "normalize_numeric repr (cell_at df col r) = CFloat (quantity repr df col r) \<and>
         py_float (clean (py_str repr (cell_at df col r))) = Some (quantity repr df col r)"
proof (cases "isna (cell_at df col r)")
  case True
  then have "cell_at df col r = CFloat NaN" by (cases "cell_at df col r" rule: isna.cases) simp_all
  with assms show ?thesis by (simp add: quantity_def normalize_numeric_def)
next
  case False
  with assms show ?thesis
    by (simp add: quantity_def normalize_numeric_def split: option.splits)
qed

lemma quantity_grid:
  assumes "quantity repr df col r = Fin v"
  shows "\<exists>k::int. v = of_int k * pow2 (- 1074)"
proof -
  from assms have "quantity repr df col r \<noteq> NaN" by simp
  from quantity_float [OF this] assms
  have "py_float (clean (py_str repr (cell_at df col r))) = Some (Fin v)" by simp
  then show ?thesis by (rule py_float_grid)
qed

lemma shortfall_positive:
  assumes "exceeds repr df r"
  shows "gt (shortfall repr df r) (Fin 0)"
  unfolding shortfall_def
proof (rule sub_positive)
  show "gt (quantity repr df COL_REQUESTED r) (quantity repr df COL_RECEIVED r)"
    using assms by (simp add: exceeds_def)
qed (rule quantity_grid, assumption)+

section \<open>The pipeline on the example reports\<close>

lemma str_int_506: "str_int 506 = ascii ''506''" "str_int 369 = ascii ''369''" "str_int 723 = ascii ''723''"
  by (simp_all add: str_int_def digits_of.simps ascii_def)

lemma ex_quant:
  "normalize_numeric repr (CInt 506) = CFloat (Fin 506)"
  "normalize_numeric repr (CInt 369) = CFloat (Fin 369)"
  "normalize_numeric repr (CInt 723) = CFloat (Fin 723)"
  "normalize_numeric repr (CStr (ascii ''358 '' @ [0x41C, 0x33])) = CFloat (Fin 358)"
  "normalize_numeric repr (CStr (ascii ''80 '' @ [0x41C, 0x33])) = CFloat (Fin 80)"
  "normalize_numeric repr (CStr (ascii ''934 '' @ [0x41A, 0x413])) = CFloat (Fin 934)"
  by (simp_all add: normalize_numeric_def str_int_506 eval_clean eval_float)

lemma wf_example: "wf_dataframe example_report"
  by (simp add: wf_dataframe_def example_report_def eval_cols)

lemma example_output:
  "process_dataframe repr example_report =
   Inr \<lparr>columns = [COL_RECEIVED, COL_ID, COL_REQUESTED, COL_DISCREPANCY],
        rows = [[CFloat (Fin 723), CStr (ascii ''727698''), CFloat (Fin 934), CFloat (Fin 211)]]\<rparr>"
  apply (subst process_dataframe_success)
      apply (rule wf_example)
     apply (simp add: df_empty_def example_report_def)
    apply (simp add: example_report_def required_columns_def)
   apply (simp add: example_report_def quantity_def cell_at_def eval_cols ex_quant)
  apply (simp add: example_report_def output_columns_def output_row_def normalize_row_def exceeds_def
      shortfall_def quantity_def cell_at_def ex_quant)
  apply (simp add: eval_cols fix_material_id_def replace_def ascii_def)
  done

section \<open>Failures of the pipeline\<close>

lemma process_xlsb_file_read:
  "read_excel fs input_path = Inr df \<Longrightarrow>
   process_xlsb_file repr input_path output_path fs =
     (case process_dataframe repr df of
        Inl e \<Rightarrow> (Inl e, fs)
      | Inr out \<Rightarrow> (Inr (), fs(output_path \<mapsto> Workbook out)))"
  by (simp add: process_xlsb_file_def)

lemma read_excel_Workbook: "read_excel (fs(p \<mapsto> Workbook df)) p = Inr df"
  by (simp add: read_excel_def)

lemma ex_abc: "normalize_numeric repr (CStr (ascii ''abc'')) = CStr (ascii ''abc'')"
  "py_float (ascii ''abc'') = None"
  by (simp_all add: normalize_numeric_def eval_clean eval_float)

text \<open>
  C1: for a frame that is read, is not empty and has the required columns, one row with a
  quantity received or requested that is not a number after normalisation and coercion
  makes \<open>process_xlsb_file\<close> fail with \<open>InvalidNumericDataError\<close>, whatever the other
  rows hold, and the file system is left as it was: no output is written.
\<close>

theorem invalid_numeric_aborts:
  assumes "read_excel fs input_path = Inr df" and "wf_dataframe df" and "\<not> df_empty df"
    and "set required_columns \<subseteq> set (columns df)"
    and "r \<in> set (rows df)"
    and "quantity repr df COL_RECEIVED r = NaN \<or> quantity repr df COL_REQUESTED r = NaN"
  shows "process_xlsb_file repr input_path output_path fs = (Inl InvalidNumericDataError, fs)"
proof -
  have "filter (\<lambda>col. col \<notin> set (columns df)) required_columns = []"
    using assms(4) by (auto simp: filter_empty_conv)
  moreover have "has_nan (normalized repr df)"
    using assms(5,6) by (auto simp: has_nan_normalized [OF assms(2,4)])
  ultimately have "process_dataframe repr df = Inl InvalidNumericDataError"
    using assms(3) by (simp add: process_dataframe_def Let_def)
  then show ?thesis
    by (simp add: process_xlsb_file_read [OF assms(1)])
qed

text \<open>
  The first row of \<open>invalid_report\<close> is sound and would pass the filter; the text
  \<open>abc\<close> of the second row fails the run.
\<close>

theorem invalid_numeric_aborts_witness:
  "process_xlsb_file (\<lambda>q. []) (ascii ''in.xlsx'') (ascii ''out.xlsx'')
     [ascii ''in.xlsx'' \<mapsto> Workbook invalid_report]
   = (Inl InvalidNumericDataError, [ascii ''in.xlsx'' \<mapsto> Workbook invalid_report])"
proof (rule invalid_numeric_aborts)
  show "read_excel [ascii ''in.xlsx'' \<mapsto> Workbook invalid_report] (ascii ''in.xlsx'') = Inr invalid_report"
    by (rule read_excel_Workbook)
  show "wf_dataframe invalid_report"
    by (simp add: wf_dataframe_def invalid_report_def eval_cols)
  show "\<not> df_empty invalid_report"
    by (simp add: df_empty_def invalid_report_def)
  show "set required_columns \<subseteq> set (columns invalid_report)"
    by (simp add: invalid_report_def required_columns_def)
  show "[CStr (ascii ''I123''), CStr (ascii ''abc''), CStr (ascii ''100'')] \<in> set (rows invalid_report)"
    by (simp add: invalid_report_def)
  have "quantity (\<lambda>q. []) invalid_report COL_RECEIVED
      [CStr (ascii ''I123''), CStr (ascii ''abc''), CStr (ascii ''100'')] = NaN"
    by (simp add: quantity_def cell_at_def invalid_report_def eval_cols ex_abc)
  then show "quantity (\<lambda>q. []) invalid_report COL_RECEIVED
      [CStr (ascii ''I123''), CStr (ascii ''abc''), CStr (ascii ''100'')] = NaN \<or>
    quantity (\<lambda>q. []) invalid_report COL_REQUESTED
      [CStr (ascii ''I123''), CStr (ascii ''abc''), CStr (ascii ''100'')] = NaN" ..
qed

lemma split_comma_plain: "44 \<notin> set x \<Longrightarrow> split_comma x = [x]"
  by (induction x rule: split_comma.induct) simp_all

lemma split_comma_sep:
  "44 \<notin> set x \<Longrightarrow> split_comma (x @ 44 # 32 # rest) = x # split_comma rest"
proof (induction x)
  case Nil
  show ?case by simp
next
  case (Cons c x)
  then have ih: "split_comma (x @ 44 # 32 # rest) = x # split_comma rest" and c: "c \<noteq> 44"
    by simp_all
  show ?case
  proof (cases x)
    case Nil
    with c show ?thesis by simp
  next
    case (Cons d y)
    with ih c show ?thesis by simp
  qed
qed

lemma split_join_comma:
  "xs \<noteq> [] \<Longrightarrow> \<forall>x\<in>set xs. 44 \<notin> set x \<Longrightarrow> split_comma (join_comma xs) = xs"
proof (induction xs rule: join_comma.induct)
  case 1
  then show ?case by simp
next
  case (2 x)
  then show ?case by (simp add: split_comma_plain)
next
  case (3 x y ys)
  then have "split_comma (join_comma (y # ys)) = y # ys" by simp
  moreover have "join_comma (x # y # ys) = x @ 44 # 32 # join_comma (y # ys)"
    by (simp add: ascii_def)
  ultimately show ?case using 3 by (simp only: split_comma_sep) (simp add: split_comma_sep)
qed

lemma required_columns_no_comma: "\<forall>x\<in>set required_columns. 44 \<notin> set x"
  by (simp add: eval_cols)

text \<open>
  C5: for a frame that is not empty and lacks a required column, \<open>process_xlsb_file\<close>
  fails with \<open>MissingColumnsError\<close>, and nothing is written.  The error carries all the
  required columns that the frame lacks, in the order of \<open>required_columns\<close>, and no
  others.  The text of the exception that leaves \<open>process_xlsb_file\<close> is the prefix of
  line 65, the words of line 33 and the names of these columns joined by a comma and a
  blank; split at the commas, the end of the text gives back these columns, each once
  and none else.
\<close>

theorem missing_columns_reported:
  assumes "read_excel fs input_path = Inr df" and "\<not> df_empty df"
    and "\<not> set required_columns \<subseteq> set (columns df)"
  shows "process_xlsb_file repr input_path output_path fs =
           (Inl (MissingColumnsError (filter (\<lambda>col. col \<notin> set (columns df)) required_columns)), fs) \<and>
         set (filter (\<lambda>col. col \<notin> set (columns df)) required_columns) =
           set required_columns - set (columns df) \<and>
         error_message (MissingColumnsError (filter (\<lambda>col. col \<notin> set (columns df)) required_columns)) =
           [0x41E, 0x448, 0x438, 0x431, 0x43A, 0x430, 0x20, 0x43E, 0x431, 0x440, 0x430, 0x431,
            0x43E, 0x442, 0x43A, 0x438, 0x20, 0x444, 0x430, 0x439, 0x43B, 0x430, 0x3A, 0x20] @
           [0x41E, 0x442, 0x441, 0x443, 0x442, 0x441, 0x442, 0x432, 0x443, 0x44E, 0x442, 0x20,
            0x43A, 0x43E, 0x43B, 0x43E, 0x43D, 0x43A, 0x438, 0x3A, 0x20] @
           join_comma (filter (\<lambda>col. col \<notin> set (columns df)) required_columns) \<and>
         split_comma (drop 45
             (error_message (MissingColumnsError (filter (\<lambda>col. col \<notin> set (columns df)) required_columns)))) =
           filter (\<lambda>col. col \<notin> set (columns df)) required_columns"
proof -
  let ?missing = "filter (\<lambda>col. col \<notin> set (columns df)) required_columns"
  have ne: "?missing \<noteq> []"
    using assms(3) by (auto simp: filter_empty_conv)
  then have "process_dataframe repr df = Inl (MissingColumnsError ?missing)"
    using assms(2) by (simp add: process_dataframe_def Let_def)
  then have run: "process_xlsb_file repr input_path output_path fs =
      (Inl (MissingColumnsError ?missing), fs)"
    by (simp add: process_xlsb_file_read [OF assms(1)])
  have names: "set ?missing = set required_columns - set (columns df)"
    by auto
  have "\<forall>x\<in>set ?missing. 44 \<notin> set x"
    using required_columns_no_comma by simp
  with ne have parts: "split_comma (join_comma ?missing) = ?missing"
    by (rule split_join_comma)
  have msg: "error_message (MissingColumnsError ?missing) =
      [0x41E, 0x448, 0x438, 0x431, 0x43A, 0x430, 0x20, 0x43E, 0x431, 0x440, 0x430, 0x431,
       0x43E, 0x442, 0x43A, 0x438, 0x20, 0x444, 0x430, 0x439, 0x43B, 0x430, 0x3A, 0x20] @
      [0x41E, 0x442, 0x441, 0x443, 0x442, 0x441, 0x442, 0x432, 0x443, 0x44E, 0x442, 0x20,
       0x43A, 0x43E, 0x43B, 0x43E, 0x43D, 0x43A, 0x438, 0x3A, 0x20] @ join_comma ?missing"
    by (simp add: error_message_def)
  have "drop 45 (error_message (MissingColumnsError ?missing)) = join_comma ?missing"
    unfolding msg by simp
  with parts have decode: "split_comma (drop 45 (error_message (MissingColumnsError ?missing))) = ?missing"
    by simp
  from run names msg decode show ?thesis by (intro conjI)
qed

text \<open>
  A report with the column of the quantity received only: the error names the two others,
  and its text is that of the source followed by the two labels, a comma and a blank
  between them.
\<close>

theorem missing_columns_reported_witness:
  "process_xlsb_file (\<lambda>q. []) (ascii ''in.xlsx'') (ascii ''out.xlsx'')
     [ascii ''in.xlsx'' \<mapsto> Workbook incomplete_report]
   = (Inl (MissingColumnsError [COL_ID, COL_REQUESTED]), [ascii ''in.xlsx'' \<mapsto> Workbook incomplete_report]) \<and>
   error_message (MissingColumnsError [COL_ID, COL_REQUESTED]) =
     [0x41E, 0x448, 0x438, 0x431, 0x43A, 0x430, 0x20, 0x43E, 0x431, 0x440, 0x430, 0x431,
      0x43E, 0x442, 0x43A, 0x438, 0x20, 0x444, 0x430, 0x439, 0x43B, 0x430, 0x3A, 0x20,
      0x41E, 0x442, 0x441, 0x443, 0x442, 0x441, 0x442, 0x432, 0x443, 0x44E, 0x442, 0x20,
      0x43A, 0x43E, 0x43B, 0x43E, 0x43D, 0x43A, 0x438, 0x3A, 0x20, 0x49, 0x44, 0x20, 0x41C,
      0x430, 0x442, 0x435, 0x440, 0x438, 0x430, 0x43B, 0x430, 0x2C, 0x20, 0x41A, 0x43E,
      0x43B, 0x2D, 0x432, 0x43E, 0x20, 0x43F, 0x43E, 0x20, 0x437, 0x430, 0x44F, 0x432,
      0x43A, 0x435] \<and>
   split_comma
     [0x49, 0x44, 0x20, 0x41C, 0x430, 0x442, 0x435, 0x440, 0x438, 0x430, 0x43B, 0x430, 0x2C,
      0x20, 0x41A, 0x43E, 0x43B, 0x2D, 0x432, 0x43E, 0x20, 0x43F, 0x43E, 0x20, 0x437, 0x430,
      0x44F, 0x432, 0x43A, 0x435] = [COL_ID, COL_REQUESTED]"
proof -
  have a: "read_excel [ascii ''in.xlsx'' \<mapsto> Workbook incomplete_report] (ascii ''in.xlsx'') = Inr incomplete_report"
    by (rule read_excel_Workbook)
  have b: "\<not> df_empty incomplete_report"
    by (simp add: df_empty_def incomplete_report_def)
  have c: "\<not> set required_columns \<subseteq> set (columns incomplete_report)"
    by (simp add: incomplete_report_def eval_cols ascii_def)
  have d: "filter (\<lambda>col. col \<notin> set (columns incomplete_report)) required_columns = [COL_ID, COL_REQUESTED]"
    by (simp add: incomplete_report_def eval_cols ascii_def)
  have e: "join_comma [COL_ID, COL_REQUESTED] =
      [0x49, 0x44, 0x20, 0x41C, 0x430, 0x442, 0x435, 0x440, 0x438, 0x430, 0x43B, 0x430, 0x2C,
       0x20, 0x41A, 0x43E, 0x43B, 0x2D, 0x432, 0x43E, 0x20, 0x43F, 0x43E, 0x20, 0x437, 0x430,
       0x44F, 0x432, 0x43A, 0x435]"
    by (simp add: COL_ID_def COL_REQUESTED_def ascii_def)
  from missing_columns_reported [OF a b c, of "\<lambda>q. []" "ascii ''out.xlsx''"]
  have run: "process_xlsb_file (\<lambda>q. []) (ascii ''in.xlsx'') (ascii ''out.xlsx'')
        [ascii ''in.xlsx'' \<mapsto> Workbook incomplete_report]
      = (Inl (MissingColumnsError [COL_ID, COL_REQUESTED]), [ascii ''in.xlsx'' \<mapsto> Workbook incomplete_report])"
    and msg: "error_message (MissingColumnsError [COL_ID, COL_REQUESTED]) =
      [0x41E, 0x448, 0x438, 0x431, 0x43A, 0x430, 0x20, 0x43E, 0x431, 0x440, 0x430, 0x431,
       0x43E, 0x442, 0x43A, 0x438, 0x20, 0x444, 0x430, 0x439, 0x43B, 0x430, 0x3A, 0x20] @
      [0x41E, 0x442, 0x441, 0x443, 0x442, 0x441, 0x442, 0x432, 0x443, 0x44E, 0x442, 0x20,
       0x43A, 0x43E, 0x43B, 0x43E, 0x43D, 0x43A, 0x438, 0x3A, 0x20] @
      join_comma [COL_ID, COL_REQUESTED]"
    and decode: "split_comma (drop 45 (error_message (MissingColumnsError [COL_ID, COL_REQUESTED]))) =
      [COL_ID, COL_REQUESTED]"
    unfolding d by blast+
  from decode have "split_comma (join_comma [COL_ID, COL_REQUESTED]) = [COL_ID, COL_REQUESTED]"
    unfolding msg by simp
  then have parts: "split_comma
     [0x49, 0x44, 0x20, 0x41C, 0x430, 0x442, 0x435, 0x440, 0x438, 0x430, 0x43B, 0x430, 0x2C,
      0x20, 0x41A, 0x43E, 0x43B, 0x2D, 0x432, 0x43E, 0x20, 0x43F, 0x43E, 0x20, 0x437, 0x430,
      0x44F, 0x432, 0x43A, 0x435] = [COL_ID, COL_REQUESTED]"
    unfolding e .
  from msg have full: "error_message (MissingColumnsError [COL_ID, COL_REQUESTED]) =
     [0x41E, 0x448, 0x438, 0x431, 0x43A, 0x430, 0x20, 0x43E, 0x431, 0x440, 0x430, 0x431,
      0x43E, 0x442, 0x43A, 0x438, 0x20, 0x444, 0x430, 0x439, 0x43B, 0x430, 0x3A, 0x20,
      0x41E, 0x442, 0x441, 0x443, 0x442, 0x441, 0x442, 0x432, 0x443, 0x44E, 0x442, 0x20,
      0x43A, 0x43E, 0x43B, 0x43E, 0x43D, 0x43A, 0x438, 0x3A, 0x20, 0x49, 0x44, 0x20, 0x41C,
      0x430, 0x442, 0x435, 0x440, 0x438, 0x430, 0x43B, 0x430, 0x2C, 0x20, 0x41A, 0x43E,
      0x43B, 0x2D, 0x432, 0x43E, 0x20, 0x43F, 0x43E, 0x20, 0x437, 0x430, 0x44F, 0x432,
      0x43A, 0x435]"
    unfolding e by simp
  from run full parts show ?thesis by (intro conjI)
qed

section \<open>The output of the pipeline\<close>

lemma index_of_append: "c \<in> set cs \<Longrightarrow> index_of (cs @ ds) c = index_of cs c"
  by (induction cs) auto

lemma output_row_id:
  assumes "wf_dataframe df" "set required_columns \<subseteq> set (columns df)"
    "length r = length (columns df)"
  shows "output_row repr df r ! index_of (output_columns df) COL_ID =
         fix_material_id repr (cell_at df COL_ID r)"
proof -
  from assms(2) have mem: "COL_ID \<in> set (columns df)"
    by (auto simp: required_columns_def)
  have lt: "index_of (columns df) COL_ID < length r"
    using mem assms(3) by (simp add: index_of_less)
  have id: "normalize_row repr df r ! index_of (columns df) COL_ID =
      fix_material_id repr (cell_at df COL_ID r)"
    using normalize_row_numbers(3) [OF assms, of repr] by (simp add: cell_at_def)
  show ?thesis
  proof (cases "COL_DISCREPANCY \<in> set (columns df)")
    case True
    then have "index_of (columns df) COL_DISCREPANCY \<noteq> index_of (columns df) COL_ID"
      using mem by (simp add: index_of_eq_iff COL_ID_def COL_DISCREPANCY_def)
    then show ?thesis
      using True id by (simp add: output_row_def output_columns_def)
  next
    case False
    then show ?thesis
      using id lt mem by (simp add: output_row_def output_columns_def index_of_append nth_append)
  qed
qed

lemma digits_of_range: "c \<in> set (digits_of n) \<Longrightarrow> 48 \<le> c \<and> c \<le> 57"
proof (induction n arbitrary: c rule: digits_of.induct)
  case (1 n)
  show ?case
  proof (cases "n < 10")
    case True
    with "1.prems" show ?thesis by (simp add: digits_of.simps [of n])
  next
    case False
    with "1.prems" have "c \<in> set (digits_of (n div 10)) \<or> c = 48 + n mod 10"
      by (auto simp add: digits_of.simps [of n])
    then show ?thesis
    proof
      assume "c \<in> set (digits_of (n div 10))"
      with "1.IH" False show ?thesis by blast
    next
      assume "c = 48 + n mod 10"
      moreover have "n mod 10 < 10" by simp
      ultimately show ?thesis by linarith
    qed
  qed
qed

lemma str_int_no_I: "73 \<notin> set (str_int i)"
  using digits_of_range [of 73] by (auto simp: str_int_def)

lemma map_subst_absent: "a \<notin> set s \<Longrightarrow> map (\<lambda>c. if c = a then b else c) s = s"
  by (induction s) auto

lemma fix_material_id_map:
  "fix_material_id repr x = CStr (map (\<lambda>c. if c = 73 then 49 else c) (py_str repr x))"
  by (simp add: fix_material_id_def replace_def ascii_def replace_nonempty_single)

text \<open>
  C9: in the output, the identifier of a row is the text \<open>str(x)\<close> of the cell \<open>x\<close> of
  the input with \<open>I\<close> replaced by \<open>1\<close>.  An empty cell, which is not-a-number, becomes
  the text \<open>nan\<close>, and an integer becomes its decimal numeral.
\<close>

theorem material_id_becomes_text:
  assumes "wf_dataframe df" and "process_dataframe repr df = Inr out"
    and "r \<in> set (rows df)" and "exceeds repr df r"
  shows "output_row repr df r \<in> set (rows out) \<and>
         cell_at out COL_ID (output_row repr df r) =
           CStr (replace (ascii ''I'') (ascii ''1'') (py_str repr (cell_at df COL_ID r))) \<and>
         (cell_at df COL_ID r = CFloat NaN \<longrightarrow>
            cell_at out COL_ID (output_row repr df r) = CStr (ascii ''nan'')) \<and>
         (\<forall>i. cell_at df COL_ID r = CInt i \<longrightarrow>
            cell_at out COL_ID (output_row repr df r) = CStr (str_int i))"
proof -
  from assms(1,2) have req: "set required_columns \<subseteq> set (columns df)"
    and out: "out = df\<lparr>columns := output_columns df,
           rows := map (output_row repr df) (filter (exceeds repr df) (rows df))\<rparr>"
    by (simp_all add: process_dataframe_Inr_iff)
  have len: "length r = length (columns df)"
    using assms(1,3) by (simp add: wf_dataframe_def list_all_iff)
  have cell: "cell_at out COL_ID (output_row repr df r) = fix_material_id repr (cell_at df COL_ID r)"
    using output_row_id [OF assms(1) req len, of repr] by (simp add: out cell_at_def)
  have mem: "output_row repr df r \<in> set (rows out)"
    using assms(3,4) by (simp add: out)
  have nan: "fix_material_id repr (CFloat NaN) = CStr (ascii ''nan'')"
    by (simp add: fix_material_id_map ascii_def)
  have int: "fix_material_id repr (CInt i) = CStr (str_int i)" for i
    by (simp add: fix_material_id_map map_subst_absent [OF str_int_no_I])
  show ?thesis
    using mem cell nan int by (simp add: fix_material_id_def)
qed

lemma anonymous_output:
  "process_dataframe repr anonymous_report =
   Inr \<lparr>columns = [COL_ID, COL_RECEIVED, COL_REQUESTED, COL_DISCREPANCY],
        rows = [[CStr (ascii ''nan''), CFloat (Fin 723), CFloat (Fin 934), CFloat (Fin 211)]]\<rparr>"
  apply (subst process_dataframe_success)
      apply (simp add: wf_dataframe_def anonymous_report_def eval_cols)
     apply (simp add: df_empty_def anonymous_report_def)
    apply (simp add: anonymous_report_def required_columns_def)
   apply (simp add: anonymous_report_def quantity_def cell_at_def eval_cols ex_quant)
  apply (simp add: anonymous_report_def output_columns_def output_row_def normalize_row_def exceeds_def
      shortfall_def quantity_def cell_at_def ex_quant)
  apply (simp add: eval_cols fix_material_id_def replace_def ascii_def)
  done

text \<open>
  The row of \<open>anonymous_report\<close> has no identifier; its output row has the text \<open>nan\<close>.
\<close>

theorem material_id_becomes_text_witness:
  "cell_at \<lparr>columns = [COL_ID, COL_RECEIVED, COL_REQUESTED, COL_DISCREPANCY],
        rows = [[CStr (ascii ''nan''), CFloat (Fin 723), CFloat (Fin 934), CFloat (Fin 211)]]\<rparr>
     COL_ID
     (output_row (\<lambda>q. []) anonymous_report [CFloat NaN, CInt 723, CStr (ascii ''934 '' @ [0x41A, 0x413])])
   = CStr (ascii ''nan'')"
proof -
  have a: "wf_dataframe anonymous_report"
    by (simp add: wf_dataframe_def anonymous_report_def eval_cols)
  have c: "[CFloat NaN, CInt 723, CStr (ascii ''934 '' @ [0x41A, 0x413])] \<in> set (rows anonymous_report)"
    by (simp add: anonymous_report_def)
  have d: "exceeds (\<lambda>q. []) anonymous_report [CFloat NaN, CInt 723, CStr (ascii ''934 '' @ [0x41A, 0x413])]"
    by (simp add: exceeds_def quantity_def cell_at_def anonymous_report_def eval_cols ex_quant)
  have e: "cell_at anonymous_report COL_ID [CFloat NaN, CInt 723, CStr (ascii ''934 '' @ [0x41A, 0x413])] = CFloat NaN"
    by (simp add: cell_at_def anonymous_report_def)
  show ?thesis
    using material_id_becomes_text [OF a anonymous_output c d] e by blast
qed

text \<open>
  C2 as stated fails: for a report that already has a column with the label of the
  discrepancy, here a column of floats with the value 5.5, the output has the four columns
  of the input and no appended one; the old cell of that column is overwritten by the
  discrepancy 211.
\<close>

theorem output_without_appended_column:
  "process_dataframe (\<lambda>q. []) relabelled_report =
     Inr \<lparr>columns = [COL_ID, COL_RECEIVED, COL_REQUESTED, COL_DISCREPANCY],
          rows = [[CStr (ascii ''727698''), CFloat (Fin 723), CFloat (Fin 934), CFloat (Fin 211)]]\<rparr> \<and>
   columns relabelled_report = [COL_ID, COL_RECEIVED, COL_REQUESTED, COL_DISCREPANCY] \<and>
   map (cell_at relabelled_report COL_DISCREPANCY) (rows relabelled_report) = [CFloat (Fin (11 / 2))] \<and>
   float_column relabelled_report COL_DISCREPANCY"
proof -
  have "process_dataframe (\<lambda>q. []) relabelled_report =
     Inr \<lparr>columns = [COL_ID, COL_RECEIVED, COL_REQUESTED, COL_DISCREPANCY],
          rows = [[CStr (ascii ''727698''), CFloat (Fin 723), CFloat (Fin 934), CFloat (Fin 211)]]\<rparr>"
    apply (subst process_dataframe_success)
        apply (simp add: wf_dataframe_def relabelled_report_def eval_cols)
       apply (simp add: df_empty_def relabelled_report_def)
      apply (simp add: relabelled_report_def required_columns_def)
     apply (simp add: relabelled_report_def quantity_def cell_at_def eval_cols ex_quant)
    apply (simp add: relabelled_report_def output_columns_def output_row_def normalize_row_def exceeds_def
        shortfall_def quantity_def cell_at_def ex_quant)
    apply (simp add: eval_cols fix_material_id_def replace_def ascii_def)
    done
  moreover have "map (cell_at relabelled_report COL_DISCREPANCY) (rows relabelled_report) =
      [CFloat (Fin (11 / 2))]"
    by (simp add: relabelled_report_def cell_at_def eval_cols)
  moreover have "float_column relabelled_report COL_DISCREPANCY"
    by (simp add: float_column_def relabelled_report_def cell_at_def eval_cols)
  ultimately show ?thesis by (simp add: relabelled_report_def)
qed

text \<open>
  The rounding in the pipeline: the first row of \<open>rounded_report\<close> requests one unit more
  than was received, in exact numbers, and is dropped, because both numerals read as the
  float \<open>2 ^ 53\<close>; the second row is written with the discrepancy
  \<open>0.19999999999999998\<close>.
\<close>

lemma rounded_quant:
  "normalize_numeric repr (CStr (ascii ''9007199254740992'')) = CFloat (Fin 9007199254740992)"
  "normalize_numeric repr (CStr (ascii ''9007199254740993'')) = CFloat (Fin 9007199254740992)"
  "normalize_numeric repr (CStr (ascii ''0,1'')) = CFloat (Fin (3602879701896397 / 36028797018963968))"
  "normalize_numeric repr (CStr (ascii ''0,3'')) = CFloat (Fin (5404319552844595 / 18014398509481984))"
  by (simp_all add: normalize_numeric_def eval_clean eval_float round64_tie round64_tenths)

lemma rounded_output:
  "process_dataframe repr rounded_report =
   Inr \<lparr>columns = [COL_ID, COL_RECEIVED, COL_REQUESTED, COL_DISCREPANCY],
        rows = [[CStr (ascii ''A2''), CFloat (Fin (3602879701896397 / 36028797018963968)),
                 CFloat (Fin (5404319552844595 / 18014398509481984)),
                 CFloat (Fin (7205759403792793 / 36028797018963968))]]\<rparr>"
  apply (subst process_dataframe_success)
      apply (simp add: wf_dataframe_def rounded_report_def eval_cols)
     apply (simp add: df_empty_def rounded_report_def)
    apply (simp add: rounded_report_def required_columns_def)
   apply (simp add: rounded_report_def quantity_def cell_at_def eval_cols rounded_quant)
  apply (simp add: rounded_report_def output_columns_def output_row_def normalize_row_def exceeds_def
      shortfall_def quantity_def cell_at_def rounded_quant round64_tenths)
  apply (simp add: eval_cols fix_material_id_def replace_def ascii_def)
  done

text \<open>
  C2, as the code has it, for a frame that has no column with the label of the
  discrepancy or has a column of floats there: when the run succeeds, the file written
  holds the normalised rows of exactly those rows of the input whose quantity requested
  exceeds the quantity received, in the order of the input, none dropped, doubled or
  merged, each with the discrepancy, the rounded difference of requested and received,
  which is greater than zero.  The discrepancy is a new last column when the input has no
  column of that label; a column of that label keeps its place and takes the discrepancy.
  The quantities are floats of the 64-bit format, as \<open>float\<close> reads them from the
  cleaned texts.
\<close>

theorem filtered_rows_in_order:
  assumes "read_excel fs input_path = Inr df" and "wf_dataframe df"
    and "COL_DISCREPANCY \<notin> set (columns df) \<or> float_column df COL_DISCREPANCY"
    and "process_xlsb_file repr input_path output_path fs = (Inr (), fs')"
  shows "fs' = fs(output_path \<mapsto> Workbook (df\<lparr>columns := output_columns df,
           rows := map (output_row repr df) (filter (exceeds repr df) (rows df))\<rparr>)) \<and>
         (\<forall>r\<in>set (filter (exceeds repr df) (rows df)). gt (shortfall repr df r) (Fin 0)) \<and>
         (COL_DISCREPANCY \<notin> set (columns df) \<longrightarrow>
            output_columns df = columns df @ [COL_DISCREPANCY] \<and>
            (\<forall>r. output_row repr df r = normalize_row repr df r @ [CFloat (shortfall repr df r)]))"
proof -
  from assms(4) obtain out where out: "process_dataframe repr df = Inr out"
    and fs': "fs' = fs(output_path \<mapsto> Workbook out)"
    by (auto simp: process_xlsb_file_read [OF assms(1)] split: sum.splits)
  from out have "out = df\<lparr>columns := output_columns df,
           rows := map (output_row repr df) (filter (exceeds repr df) (rows df))\<rparr>"
    by (simp add: process_dataframe_Inr_iff [OF assms(2)])
  with fs' show ?thesis
    by (auto simp: shortfall_positive output_columns_def output_row_def)
qed

text \<open>
  Of the pairs (358, 506), (80, 369) and (934, 723), requested and received, only the
  third row is written, with the discrepancy 211.
\<close>

theorem filtered_rows_in_order_witness:
  "process_xlsb_file (\<lambda>q. []) (ascii ''in.xlsx'') (ascii ''out.xlsx'')
     [ascii ''in.xlsx'' \<mapsto> Workbook example_report] =
   (Inr (), [ascii ''in.xlsx'' \<mapsto> Workbook example_report,
             ascii ''out.xlsx'' \<mapsto> Workbook
               \<lparr>columns = [COL_RECEIVED, COL_ID, COL_REQUESTED, COL_DISCREPANCY],
                rows = [[CFloat (Fin 723), CStr (ascii ''727698''), CFloat (Fin 934), CFloat (Fin 211)]]\<rparr>]) \<and>
   example_report\<lparr>columns := output_columns example_report,
      rows := map (output_row (\<lambda>q. []) example_report)
               (filter (exceeds (\<lambda>q. []) example_report) (rows example_report))\<rparr> =
     \<lparr>columns = [COL_RECEIVED, COL_ID, COL_REQUESTED, COL_DISCREPANCY],
      rows = [[CFloat (Fin 723), CStr (ascii ''727698''), CFloat (Fin 934), CFloat (Fin 211)]]\<rparr>"
proof -
  let ?fs = "[ascii ''in.xlsx'' \<mapsto> Workbook example_report]"
  let ?out = "\<lparr>columns = [COL_RECEIVED, COL_ID, COL_REQUESTED, COL_DISCREPANCY],
      rows = [[CFloat (Fin 723), CStr (ascii ''727698''), CFloat (Fin 934), CFloat (Fin 211)]]\<rparr>"
  have a: "read_excel ?fs (ascii ''in.xlsx'') = Inr example_report"
    by (rule read_excel_Workbook)
  have b: "process_xlsb_file (\<lambda>q. []) (ascii ''in.xlsx'') (ascii ''out.xlsx'') ?fs =
      (Inr (), ?fs(ascii ''out.xlsx'' \<mapsto> Workbook ?out))"
    by (simp add: process_xlsb_file_read [OF a] example_output)
  have c: "COL_DISCREPANCY \<notin> set (columns example_report) \<or>
      float_column example_report COL_DISCREPANCY"
    by (simp add: example_report_def eval_cols)
  from filtered_rows_in_order [OF a wf_example c b]
  have "?fs(ascii ''out.xlsx'' \<mapsto> Workbook ?out) =
      ?fs(ascii ''out.xlsx'' \<mapsto> Workbook (example_report\<lparr>columns := output_columns example_report,
      rows := map (output_row (\<lambda>q. []) example_report)
               (filter (exceeds (\<lambda>q. []) example_report) (rows example_report))\<rparr>))"
    by blast
  then have "Workbook ?out = Workbook (example_report\<lparr>columns := output_columns example_report,
      rows := map (output_row (\<lambda>q. []) example_report)
               (filter (exceeds (\<lambda>q. []) example_report) (rows example_report))\<rparr>)"
    by (rule map_upd_eqD1)
  with b show ?thesis by simp
qed

text \<open>
  C7 as stated fails in its parenthesis: for a report with a column of the label of the
  discrepancy and no row to keep, the output has no rows and the columns of the input, none
  appended.
\<close>

theorem empty_result_without_appended_column:
  "process_dataframe (\<lambda>q. []) relabelled_satisfied_report =
     Inr \<lparr>columns = [COL_DISCREPANCY, COL_ID, COL_RECEIVED, COL_REQUESTED], rows = []\<rparr> \<and>
   columns relabelled_satisfied_report = [COL_DISCREPANCY, COL_ID, COL_RECEIVED, COL_REQUESTED]"
proof -
  have "process_dataframe (\<lambda>q. []) relabelled_satisfied_report =
     Inr \<lparr>columns = [COL_DISCREPANCY, COL_ID, COL_RECEIVED, COL_REQUESTED], rows = []\<rparr>"
    apply (subst process_dataframe_success)
        apply (simp add: wf_dataframe_def relabelled_satisfied_report_def eval_cols)
       apply (simp add: df_empty_def relabelled_satisfied_report_def)
      apply (simp add: relabelled_satisfied_report_def required_columns_def)
     apply (simp add: relabelled_satisfied_report_def quantity_def cell_at_def eval_cols ex_quant)
    apply (simp add: relabelled_satisfied_report_def output_columns_def output_row_def normalize_row_def exceeds_def
        shortfall_def quantity_def cell_at_def eval_cols ex_quant)
    done
  then show ?thesis by (simp add: relabelled_satisfied_report_def)
qed

text \<open>
  C7, as the code has it: for a frame that is read, is not empty, has the required
  columns and numbers in all cells of the numeric columns, and in which no quantity
  requested exceeds the quantity received, \<open>process_xlsb_file\<close> succeeds and writes a
  frame without rows that has the discrepancy column, as a new last column when the input
  has no column of that label.
\<close>

theorem empty_filter_result_succeeds:
  assumes "read_excel fs input_path = Inr df" and "wf_dataframe df" and "\<not> df_empty df"
    and "set required_columns \<subseteq> set (columns df)"
    and "\<forall>r\<in>set (rows df). quantity repr df COL_RECEIVED r \<noteq> NaN \<and> quantity repr df COL_REQUESTED r \<noteq> NaN"
    and "\<forall>r\<in>set (rows df). \<not> exceeds repr df r"
  shows "process_xlsb_file repr input_path output_path fs =
           (Inr (), fs(output_path \<mapsto> Workbook (df\<lparr>columns := output_columns df, rows := []\<rparr>))) \<and>
         COL_DISCREPANCY \<in> set (output_columns df) \<and>
         (COL_DISCREPANCY \<notin> set (columns df) \<longrightarrow> output_columns df = columns df @ [COL_DISCREPANCY])"
proof -
  have "filter (exceeds repr df) (rows df) = []"
    using assms(6) by (simp add: filter_empty_conv)
  then show ?thesis
    using process_dataframe_success [OF assms(2-5)]
    by (simp add: process_xlsb_file_read [OF assms(1)] output_columns_def)
qed

text \<open>
  In \<open>satisfied_report\<close> every receipt covers the request: the run succeeds with a
  frame of four columns and no rows.
\<close>

theorem empty_filter_result_succeeds_witness:
  "process_xlsb_file (\<lambda>q. []) (ascii ''in.xlsx'') (ascii ''out.xlsx'')
     [ascii ''in.xlsx'' \<mapsto> Workbook satisfied_report] =
   (Inr (), [ascii ''in.xlsx'' \<mapsto> Workbook satisfied_report,
             ascii ''out.xlsx'' \<mapsto> Workbook
               \<lparr>columns = [COL_ID, COL_RECEIVED, COL_REQUESTED, COL_DISCREPANCY], rows = []\<rparr>])"
proof -
  let ?fs = "[ascii ''in.xlsx'' \<mapsto> Workbook satisfied_report]"
  have a: "read_excel ?fs (ascii ''in.xlsx'') = Inr satisfied_report"
    by (rule read_excel_Workbook)
  have b: "wf_dataframe satisfied_report"
    by (simp add: wf_dataframe_def satisfied_report_def eval_cols)
  have c: "\<not> df_empty satisfied_report"
    by (simp add: df_empty_def satisfied_report_def)
  have d: "set required_columns \<subseteq> set (columns satisfied_report)"
    by (simp add: satisfied_report_def required_columns_def)
  have e: "\<forall>r\<in>set (rows satisfied_report).
      quantity (\<lambda>q. []) satisfied_report COL_RECEIVED r \<noteq> NaN \<and>
      quantity (\<lambda>q. []) satisfied_report COL_REQUESTED r \<noteq> NaN"
    by (simp add: satisfied_report_def quantity_def cell_at_def eval_cols ex_quant)
  have f: "\<forall>r\<in>set (rows satisfied_report). \<not> exceeds (\<lambda>q. []) satisfied_report r"
    by (simp add: satisfied_report_def exceeds_def quantity_def cell_at_def eval_cols ex_quant)
  have g: "satisfied_report\<lparr>columns := output_columns satisfied_report, rows := []\<rparr> =
      \<lparr>columns = [COL_ID, COL_RECEIVED, COL_REQUESTED, COL_DISCREPANCY], rows = []\<rparr>"
    by (simp add: satisfied_report_def output_columns_def eval_cols)
  show ?thesis
    using empty_filter_result_succeeds [OF a b c d e f, of "ascii ''out.xlsx''"] by (simp add: g)
qed

section \<open>The registry of the upload service\<close>

lemma tasks_resume [simp]: "tasks (snd (upload_file_resume u s)) = tasks s"
  by (simp add: upload_file_resume_def Let_def split: sum.splits read_failure.splits)

lemma reading_resume [simp]: "reading (snd (upload_file_resume u s)) = reading s"
  by (simp add: upload_file_resume_def Let_def split: sum.splits read_failure.splits)

lemma scheduled_resume:
  "set (scheduled (snd (upload_file_resume u s))) \<subseteq>
     insert \<lparr>job_task_id = up_task_id u, job_input_path = up_input_path u,
             job_output_path = up_output_path u\<rparr> (set (scheduled s))"
  by (auto simp add: upload_file_resume_def Let_def split: sum.splits read_failure.splits)

lemma scheduled_resume_fail:
  "up_content u = Unreadable e \<Longrightarrow> scheduled (snd (upload_file_resume u s)) = scheduled s"
  by (simp add: upload_file_resume_def Let_def read_excel_def split: sum.splits read_failure.splits)

lemma reading_process_task [simp]: "reading (process_task repr j s) = reading s"
  by (simp add: process_task_def Let_def split: prod.splits)

lemma scheduled_process_task [simp]: "scheduled (process_task repr j s) = scheduled s"
  by (simp add: process_task_def Let_def split: prod.splits)

lemma tasks_process_task_other:
  "tid \<noteq> job_task_id j \<Longrightarrow> tasks (process_task repr j s) tid = tasks s tid"
  by (simp add: process_task_def Let_def split: prod.splits option.splits)

lemma dom_tasks_process_task [simp]: "dom (tasks (process_task repr j s)) = dom (tasks s)"
  by (auto simp add: process_task_def Let_def split: prod.splits option.splits if_splits)

lemma is_pending_cong: "tasks s' tid = tasks s tid \<Longrightarrow> is_pending s' tid = is_pending s tid"
  by (simp add: is_pending_def)

lemma is_pending_dom: "is_pending s tid \<Longrightarrow> tid \<in> dom (tasks s)"
  by (auto simp: is_pending_def split: option.splits)

lemma consistent_step:
  assumes "consistent s" and "step repr s s'"
  shows "consistent s'"
  using assms(2)
proof cases
  case (accept task_id filename content)
  show ?thesis
  proof (cases "endswith filename (ascii ''.xlsx'')")
    case False
    with accept assms(1) show ?thesis by (simp add: upload_file_begin_def)
  next
    case True
    have fresh: "task_id \<notin> up_task_id ` set (reading s)"
      using assms(1) accept(2) by (auto simp: consistent_def dest: is_pending_dom)
    have fresh': "task_id \<notin> job_task_id ` set (scheduled s)"
      using assms(1) accept(2) by (auto simp: consistent_def)
    show ?thesis
      using True assms(1) fresh fresh' accept(2)
      unfolding accept(1)
      by (auto simp: upload_file_begin_def Let_def consistent_def is_pending_def)
  qed
next
  case (resume before u after)
  let ?s = "s\<lparr>reading := before @ after\<rparr>"
  have d: "distinct (map up_task_id (before @ u # after))"
    and p: "\<forall>v\<in>set (before @ u # after). is_pending s (up_task_id v)"
    and j: "\<forall>j\<in>set (scheduled s). job_task_id j \<in> dom (tasks s) \<and>
        job_task_id j \<notin> up_task_id ` set (before @ u # after)"
    using assms(1) resume(2) by (simp_all add: consistent_def)
  have 1: "distinct (map up_task_id (reading s'))"
    using d by (simp add: resume(1))
  have 2: "\<forall>v\<in>set (reading s'). is_pending s' (up_task_id v)"
    using p by (auto simp: resume(1) is_pending_def)
  have 3: "\<forall>k\<in>set (scheduled s'). job_task_id k \<in> dom (tasks s') \<and>
        job_task_id k \<notin> up_task_id ` set (reading s')"
  proof
    fix k assume "k \<in> set (scheduled s')"
    then have "k = \<lparr>job_task_id = up_task_id u, job_input_path = up_input_path u,
             job_output_path = up_output_path u\<rparr> \<or> k \<in> set (scheduled s)"
      using scheduled_resume [of u ?s] by (auto simp: resume(1))
    then show "job_task_id k \<in> dom (tasks s') \<and> job_task_id k \<notin> up_task_id ` set (reading s')"
    proof
      assume k: "k = \<lparr>job_task_id = up_task_id u, job_input_path = up_input_path u,
             job_output_path = up_output_path u\<rparr>"
      have "is_pending s (up_task_id u)" using p by simp
      then have "up_task_id u \<in> dom (tasks s)" by (rule is_pending_dom)
      moreover have "up_task_id u \<notin> up_task_id ` set (before @ after)"
        using d by auto
      ultimately show ?thesis by (simp add: k resume(1))
    next
      assume "k \<in> set (scheduled s)"
      with j show ?thesis by (auto simp: resume(1))
    qed
  qed
  from 1 2 3 show ?thesis by (simp add: consistent_def)
next
  case (run before j after)
  let ?s = "s\<lparr>scheduled := before @ after\<rparr>"
  have jn: "job_task_id j \<notin> up_task_id ` set (reading s)"
    using assms(1) run(2) by (simp add: consistent_def)
  have 1: "distinct (map up_task_id (reading s'))"
    using assms(1) by (simp add: run(1) consistent_def)
  have 2: "\<forall>v\<in>set (reading s'). is_pending s' (up_task_id v)"
  proof
    fix v assume v: "v \<in> set (reading s')"
    then have "v \<in> set (reading s)" by (simp add: run(1))
    then have "is_pending s (up_task_id v)" and "up_task_id v \<in> up_task_id ` set (reading s)"
      using assms(1) by (simp_all add: consistent_def)
    with jn have "is_pending s (up_task_id v)" and "up_task_id v \<noteq> job_task_id j"
      by auto
    then show "is_pending s' (up_task_id v)"
      by (simp add: run(1) is_pending_def tasks_process_task_other)
  qed
  have 3: "\<forall>k\<in>set (scheduled s'). job_task_id k \<in> dom (tasks s') \<and>
        job_task_id k \<notin> up_task_id ` set (reading s')"
    using assms(1) run(2) by (auto simp: run(1) consistent_def)
  from 1 2 3 show ?thesis by (simp add: consistent_def)
qed

lemma consistent_started: "started s \<Longrightarrow> consistent s"
  by (simp add: started_def consistent_def)

lemma consistent_reachable: "(step repr)\<^sup>*\<^sup>* s0 s \<Longrightarrow> started s0 \<Longrightarrow> consistent s"
  by (induction rule: rtranclp_induct) (auto intro: consistent_started consistent_step)

lemma stuck_step:
  assumes "stuck s tid" and "step repr s s'"
  shows "stuck s' tid"
  using assms(2)
proof cases
  case (accept task_id filename content)
  have "task_id \<noteq> tid"
    using assms(1) accept(2) by (auto simp: stuck_def dest: is_pending_dom)
  then show ?thesis
    using assms(1) unfolding accept(1)
    by (auto simp: upload_file_begin_def Let_def stuck_def is_pending_def)
next
  case (resume before u after)
  have ne: "up_task_id u \<noteq> tid"
    using assms(1) resume(2) by (auto simp: stuck_def)
  have "tid \<notin> job_task_id ` set (scheduled s')"
    using scheduled_resume [of u "s\<lparr>reading := before @ after\<rparr>"] assms(1) ne
    by (auto simp: resume(1) stuck_def)
  then show ?thesis
    using assms(1) resume(2) by (auto simp: resume(1) stuck_def is_pending_def)
next
  case (run before j after)
  have ne: "tid \<noteq> job_task_id j"
    using assms(1) run(2) by (auto simp: stuck_def)
  show ?thesis
    using assms(1) run(2) ne
    by (auto simp: run(1) stuck_def is_pending_def tasks_process_task_other)
qed

lemma stuck_steps: "(step repr)\<^sup>*\<^sup>* s s' \<Longrightarrow> stuck s tid \<Longrightarrow> stuck s' tid"
  by (induction rule: rtranclp_induct) (auto intro: stuck_step)

lemma stuck_status:
  "stuck s tid \<Longrightarrow> get_status tid s = TaskStatus tid (ascii ''pending'') None"
  by (auto simp: stuck_def is_pending_def get_status_def split: option.splits)

text \<open>
  C10: take a service that runs from its start, and a request that has passed the
  extension check and waits at its \<open>await\<close>.  It is registered as \<open>pending\<close>.  When its
  content is one that \<open>read_excel\<close> raises on, continuing the request does not answer with
  the task identifier, and after any further steps of the service \<open>get_status\<close> still
  reports \<open>pending\<close> without an error for its identifier: the entry is never removed and
  never becomes \<open>success\<close> or \<open>failed\<close>.
\<close>

theorem failed_parse_stays_pending:
  assumes "started s0" and "(step repr)\<^sup>*\<^sup>* s0 s"
    and "reading s = before @ u # after"
    and "up_content u = Unreadable e"
    and "(step repr)\<^sup>*\<^sup>* (snd (upload_file_resume u (s\<lparr>reading := before @ after\<rparr>))) s'"
  shows "get_status (up_task_id u) s = TaskStatus (up_task_id u) (ascii ''pending'') None \<and>
         fst (upload_file_resume u (s\<lparr>reading := before @ after\<rparr>)) \<noteq> Accepted (up_task_id u) \<and>
         get_status (up_task_id u) s' = TaskStatus (up_task_id u) (ascii ''pending'') None"
proof -
  let ?s = "s\<lparr>reading := before @ after\<rparr>"
  have i: "consistent s" using assms(2,1) by (rule consistent_reachable)
  have p: "is_pending s (up_task_id u)"
    using i assms(3) by (simp add: consistent_def)
  have d: "up_task_id u \<notin> up_task_id ` set (before @ after)"
    using i assms(3) by (auto simp: consistent_def)
  have j: "up_task_id u \<notin> job_task_id ` set (scheduled s)"
    using i assms(3) by (auto simp: consistent_def)
  have "stuck (snd (upload_file_resume u ?s)) (up_task_id u)"
    using p d j by (simp add: stuck_def is_pending_def scheduled_resume_fail [OF assms(4)])
  then have "stuck s' (up_task_id u)"
    using assms(5) by (auto intro: stuck_steps)
  moreover have "fst (upload_file_resume u ?s) \<noteq> Accepted (up_task_id u)"
    using assms(4) by (simp add: upload_file_resume_def Let_def read_excel_def split: read_failure.splits)
  moreover have "get_status (up_task_id u) s = TaskStatus (up_task_id u) (ascii ''pending'') None"
    using p by (auto simp: is_pending_def get_status_def split: option.splits)
  ultimately show ?thesis by (simp add: stuck_status)
qed

lemma reading_receiving: "reading receiving_server = [] @ broken_upload # []"
  by (simp add: receiving_server_def upload_file_begin_def endswith_def ascii_def idle_server_def
      broken_upload_def Let_def)

text \<open>
  One upload of unreadable content to an idle service.
\<close>

theorem failed_parse_stays_pending_witness:
  "get_status (ascii ''t1'')
     (snd (upload_file_resume broken_upload (receiving_server\<lparr>reading := [] @ []\<rparr>))) =
   TaskStatus (ascii ''t1'') (ascii ''pending'') None"
proof -
  have a: "started idle_server"
    by (simp add: started_def idle_server_def)
  have "step (\<lambda>q. []) idle_server receiving_server"
    unfolding receiving_server_def by (rule step.accept) (simp add: idle_server_def)
  then have b: "(step (\<lambda>q. []))\<^sup>*\<^sup>* idle_server receiving_server" by (rule r_into_rtranclp)
  have c: "up_content broken_upload = Unreadable (ValueError (ascii ''bad''))"
    by (simp add: broken_upload_def)
  have d: "(step (\<lambda>q. []))\<^sup>*\<^sup>*
      (snd (upload_file_resume broken_upload (receiving_server\<lparr>reading := [] @ []\<rparr>)))
      (snd (upload_file_resume broken_upload (receiving_server\<lparr>reading := [] @ []\<rparr>)))"
    by (rule rtranclp.rtrancl_refl)
  have e: "up_task_id broken_upload = ascii ''t1''"
    by (simp add: broken_upload_def)
  show ?thesis
    using failed_parse_stays_pending [OF a b reading_receiving c d] by (simp add: e)
qed

end
